theory Spec2Isabelle
  imports Main "HOL-Library.Word"
begin

section \<open>Platform data: buffers, strings, errors\<close>

text \<open>
  A Node \<open>Buffer\<close> is a sequence of bytes. A JavaScript \<open>string\<close> is a sequence of
  UTF-16 code units, and any sequence is a string: a surrogate code unit need not be
  paired. String constants of the source are ASCII and are written with \<open>js\<close>.
\<close>

type_synonym byte = "8 word"
type_synonym buffer = "byte list"
type_synonym jsstring = "16 word list"

definition js :: "string \<Rightarrow> jsstring" where
  "js s = map (\<lambda>c. of_nat (of_char c)) s"

text \<open>
  The server wraps every failure in \<open>new ApiError(StatusCodes.INTERNAL_SERVER_ERROR, msg)\<close>,
  the client in \<open>new Error(msg)\<close>.
\<close>

datatype error = Error string | ApiError nat string

definition INTERNAL_SERVER_ERROR :: nat where
  "INTERNAL_SERVER_ERROR = 500"

text \<open>\<open>buf.slice(start, end)\<close> for \<open>0 \<le> start \<le> end\<close>; both ends are clamped to the length.\<close>

definition slice :: "nat \<Rightarrow> nat \<Rightarrow> 'a list \<Rightarrow> 'a list" where
  "slice start end' buf = take (end' - start) (drop start buf)"

section \<open>The \<open>hex\<close> encoding of buffers\<close>

text \<open>
  \<open>buf.toString('hex')\<close> writes two lower-case digits per byte.
  \<open>Buffer.from(s, 'hex')\<close> reads pairs of digits of either case and stops at the first
  pair that is not two hexadecimal digits, or at a single last character. The decoder
  reads the low byte of each code unit, so that a code unit above U+00FF stands for the
  digit its low byte is, if any.
\<close>

definition hex_digit :: "nat \<Rightarrow> 16 word" where
  "hex_digit d = of_nat (if d < 10 then 48 + d else 87 + d)"

definition toString_hex :: "buffer \<Rightarrow> jsstring" where
  "toString_hex buf = concat (map (\<lambda>b. [hex_digit (unat b div 16), hex_digit (unat b mod 16)]) buf)"

definition unhex :: "16 word \<Rightarrow> nat option" where
  "unhex c =
     (let n = unat c mod 256 in
      if 48 \<le> n \<and> n \<le> 57 then Some (n - 48)
      else if 97 \<le> n \<and> n \<le> 102 then Some (n - 87)
      else if 65 \<le> n \<and> n \<le> 70 then Some (n - 55)
      else None)"

fun Buffer_from_hex :: "jsstring \<Rightarrow> buffer" where
  "Buffer_from_hex (a # b # rest) =
     (case unhex a of
        None \<Rightarrow> []
      | Some h \<Rightarrow>
          (case unhex b of
             None \<Rightarrow> []
           | Some l \<Rightarrow> of_nat (16 * h + l) # Buffer_from_hex rest))"
| "Buffer_from_hex _ = []"

text \<open>
  The byte that stands in a buffer once digit \<open>i\<close> of its hex string is overwritten by a
  digit of value \<open>v\<close>: the high half of the byte for an even \<open>i\<close>, the low half for an
  odd one.
\<close>

definition put_digit :: "nat \<Rightarrow> nat \<Rightarrow> byte \<Rightarrow> byte" where
  "put_digit i v b =
     (if even i then of_nat (16 * v + unat b mod 16) else of_nat (16 * (unat b div 16) + v))"

section \<open>The \<open>utf8\<close> encoding of strings\<close>

text \<open>
  Encoding (\<open>cipher.update(data, 'utf8', ...)\<close>, a string given to \<open>pbkdf2Sync\<close>): a
  surrogate pair is one code point of four bytes, and a surrogate that is not part of
  a pair is written as U+FFFD, the replacement character.
\<close>

definition is_high_surrogate :: "nat \<Rightarrow> bool" where
  "is_high_surrogate u \<longleftrightarrow> 0xD800 \<le> u \<and> u \<le> 0xDBFF"

definition is_low_surrogate :: "nat \<Rightarrow> bool" where
  "is_low_surrogate u \<longleftrightarrow> 0xDC00 \<le> u \<and> u \<le> 0xDFFF"

fun code_points :: "nat list \<Rightarrow> nat list" where
  "code_points [] = []"
| "code_points [u] = (if is_high_surrogate u \<or> is_low_surrogate u then [0xFFFD] else [u])"
| "code_points (u # l # r) =
     (if is_high_surrogate u then
        (if is_low_surrogate l
         then (0x10000 + (u - 0xD800) * 1024 + (l - 0xDC00)) # code_points r
         else 0xFFFD # code_points (l # r))
      else if is_low_surrogate u then 0xFFFD # code_points (l # r)
      else u # code_points (l # r))"

definition utf8_of_code_point :: "nat \<Rightarrow> nat list" where
  "utf8_of_code_point cp =
     (if cp < 0x80 then [cp]
      else if cp < 0x800 then [0xC0 + cp div 64, 0x80 + cp mod 64]
      else if cp < 0x10000 then [0xE0 + cp div 4096, 0x80 + cp div 64 mod 64, 0x80 + cp mod 64]
      else [0xF0 + cp div 262144, 0x80 + cp div 4096 mod 64, 0x80 + cp div 64 mod 64,
            0x80 + cp mod 64])"

definition utf8_encode :: "jsstring \<Rightarrow> buffer" where
  "utf8_encode s = map of_nat (concat (map utf8_of_code_point (code_points (map unat s))))"

text \<open>
  Decoding (\<open>decipher.update(..., 'utf8')\<close> followed by \<open>decipher.final('utf8')\<close>): the
  decoder of the Encoding Standard. A lead byte fixes how many continuation bytes are
  needed and the range of the first one; a byte outside the range ends the sequence
  with one U+FFFD and is read again as a lead byte, and so does the end of the input.
\<close>

fun read_continuation :: "nat \<Rightarrow> nat \<Rightarrow> nat \<Rightarrow> nat \<Rightarrow> nat list \<Rightarrow> nat \<times> nat list" where
  "read_continuation needed cp lower upper [] = (if needed = 0 then (cp, []) else (0xFFFD, []))"
| "read_continuation needed cp lower upper (c # bs) =
     (if needed = 0 then (cp, c # bs)
      else if lower \<le> c \<and> c \<le> upper
      then read_continuation (needed - 1) (cp * 64 + (c - 0x80)) 0x80 0xBF bs
      else (0xFFFD, c # bs))"

definition decode_one :: "nat \<Rightarrow> nat list \<Rightarrow> nat \<times> nat list" where
  "decode_one b bs =
     (if b \<le> 0x7F then (b, bs)
      else if 0xC2 \<le> b \<and> b \<le> 0xDF then read_continuation 1 (b - 0xC0) 0x80 0xBF bs
      else if 0xE0 \<le> b \<and> b \<le> 0xEF then
        read_continuation 2 (b - 0xE0) (if b = 0xE0 then 0xA0 else 0x80)
          (if b = 0xED then 0x9F else 0xBF) bs
      else if 0xF0 \<le> b \<and> b \<le> 0xF4 then
        read_continuation 3 (b - 0xF0) (if b = 0xF0 then 0x90 else 0x80)
          (if b = 0xF4 then 0x8F else 0xBF) bs
      else (0xFFFD, bs))"

function utf8_code_points :: "nat list \<Rightarrow> nat list" where
  "utf8_code_points [] = []"
| "utf8_code_points (b # bs) = fst (decode_one b bs) # utf8_code_points (snd (decode_one b bs))"
  by pat_completeness auto
termination
proof (relation "measure length")
  have rc: "length (snd (read_continuation n cp lower upper bs)) \<le> length bs"
    for n cp lower upper bs
    by (induction n cp lower upper bs rule: read_continuation.induct) auto
  show "(snd (decode_one b bs), b # bs) \<in> measure length" for b bs
    by (simp add: decode_one_def rc le_imp_less_Suc)
qed simp

definition utf16_of_code_point :: "nat \<Rightarrow> nat list" where
  "utf16_of_code_point cp =
     (if cp < 0x10000 then [cp]
      else [0xD800 + (cp - 0x10000) div 1024, 0xDC00 + (cp - 0x10000) mod 1024])"

definition utf8_decode :: "buffer \<Rightarrow> jsstring" where
  "utf8_decode buf = map of_nat (concat (map utf16_of_code_point (utf8_code_points (map unat buf))))"

text \<open>\<open>String.prototype.isWellFormed\<close>: no surrogate stands outside a pair.\<close>

fun well_formed :: "nat list \<Rightarrow> bool" where
  "well_formed [] = True"
| "well_formed [u] = (\<not> is_high_surrogate u \<and> \<not> is_low_surrogate u)"
| "well_formed (u # l # r) =
     (if is_high_surrogate u then is_low_surrogate l \<and> well_formed r
      else \<not> is_low_surrogate u \<and> well_formed (l # r))"

definition isWellFormed :: "jsstring \<Rightarrow> bool" where
  "isWellFormed s = well_formed (map unat s)"

text \<open>
  \<open>String.prototype.toWellFormed\<close>: every surrogate outside a pair becomes U+FFFD.
\<close>

definition toWellFormed :: "jsstring \<Rightarrow> jsstring" where
  "toWellFormed s = map of_nat (concat (map utf16_of_code_point (code_points (map unat s))))"

text \<open>A Unicode scalar value: a code point that is not a surrogate.\<close>

definition scalar_value :: "nat \<Rightarrow> bool" where
  "scalar_value cp \<longleftrightarrow> cp < 0x110000 \<and> \<not> (0xD800 \<le> cp \<and> cp \<le> 0xDFFF)"

section \<open>The server's symmetric service (\<open>encryption.service.ts\<close>)\<close>

subsection \<open>What the service takes from Node's \<open>crypto\<close> module\<close>

text \<open>
  \<open>crypto.randomBytes(n)\<close> reads the next \<open>n\<close> bytes of the process's entropy, here a
  tape of bytes that every call advances.
\<close>

type_synonym entropy = "nat \<Rightarrow> byte"

definition randomBytes :: "nat \<Rightarrow> entropy \<Rightarrow> buffer \<times> entropy" where
  "randomBytes n rng = (map rng [0..<n], \<lambda>i. rng (n + i))"

text \<open>
  The key derivation and the cipher are OpenSSL's, not the repository's; the service is
  modelled over any implementation of the three calls it makes:
  \<^item> \<open>pbkdf2Sync password salt iterations keylen digest\<close>;
  \<^item> \<open>cipheriv algorithm key iv plaintext\<close>: \<open>createCipheriv\<close>, \<open>update\<close>, \<open>final\<close> and
    \<open>getAuthTag\<close>, giving the ciphertext and the tag, or \<open>None\<close> when one of them throws;
  \<^item> \<open>decipheriv algorithm key iv tag ciphertext\<close>: \<open>createDecipheriv\<close>, \<open>setAuthTag\<close>,
    \<open>update\<close> and \<open>final\<close>, giving the plaintext, or \<open>None\<close> when one of them throws
    (\<open>final\<close> throws when the tag does not authenticate the ciphertext).
\<close>

record crypto =
  pbkdf2Sync :: "buffer \<Rightarrow> buffer \<Rightarrow> nat \<Rightarrow> nat \<Rightarrow> string \<Rightarrow> buffer"
  cipheriv :: "string \<Rightarrow> buffer \<Rightarrow> buffer \<Rightarrow> buffer \<Rightarrow> (buffer \<times> buffer) option"
  decipheriv :: "string \<Rightarrow> buffer \<Rightarrow> buffer \<Rightarrow> buffer \<Rightarrow> buffer \<Rightarrow> buffer option"

text \<open>\<open>crypto.timingSafeEqual(a, b)\<close> throws when the two lengths differ.\<close>

definition timingSafeEqual :: "buffer \<Rightarrow> buffer \<Rightarrow> bool option" where
  "timingSafeEqual a b = (if length a = length b then Some (a = b) else None)"

subsection \<open>The fields of \<open>EncryptionService\<close>\<close>

definition algorithm :: string where
  "algorithm = ''aes-256-gcm''"

definition keyLength :: nat where
  "keyLength = 32"

definition ivLength :: nat where
  "ivLength = 16"

definition saltLength :: nat where
  "saltLength = 64"

definition tagLength :: nat where
  "tagLength = 16"

definition iterations :: nat where
  "iterations = 100000"

definition digest :: string where
  "digest = ''sha256''"

subsection \<open>\<open>encrypt\<close> and \<open>decrypt\<close>\<close>

text \<open>
  The secret is \<open>config.encryption.secret\<close>, a parameter here. \<open>encrypt\<close> draws the IV
  first and the salt second, and returns the hex string of salt, IV, tag and ciphertext.
\<close>

definition encrypt :: "crypto \<Rightarrow> jsstring \<Rightarrow> jsstring \<Rightarrow> entropy \<Rightarrow> (error + jsstring) \<times> entropy" where
  "encrypt cr secret data rng =
     (let (iv, rng1) = randomBytes ivLength rng;
          (salt, rng2) = randomBytes saltLength rng1;
          key = pbkdf2Sync cr (utf8_encode secret) salt iterations keyLength digest
      in (case cipheriv cr algorithm key iv (utf8_encode data) of
            None \<Rightarrow> Inl (ApiError INTERNAL_SERVER_ERROR ''Failed to encrypt data'')
          | Some (ciphertext, tag) \<Rightarrow>
              (let encrypted = toString_hex ciphertext
               in Inr (toString_hex (concat [salt, iv, tag, Buffer_from_hex encrypted]))),
          rng2))"

text \<open>The IV and the salt a call of \<open>encrypt\<close> draws, and the entropy it leaves.\<close>

definition drawn_iv :: "entropy \<Rightarrow> buffer" where
  "drawn_iv rng = fst (randomBytes ivLength rng)"

definition drawn_salt :: "entropy \<Rightarrow> buffer" where
  "drawn_salt rng = fst (randomBytes saltLength (snd (randomBytes ivLength rng)))"

definition entropy_after_encrypt :: "entropy \<Rightarrow> entropy" where
  "entropy_after_encrypt rng = snd (randomBytes saltLength (snd (randomBytes ivLength rng)))"

text \<open>The four slices \<open>decrypt\<close> takes of the decoded envelope.\<close>

definition envelope_fields :: "buffer \<Rightarrow> buffer \<times> buffer \<times> buffer \<times> buffer" where
  "envelope_fields inputBuffer =
     (slice 0 saltLength inputBuffer,
      slice saltLength (saltLength + ivLength) inputBuffer,
      slice (saltLength + ivLength) (saltLength + ivLength + tagLength) inputBuffer,
      drop (saltLength + ivLength + tagLength) inputBuffer)"

definition decrypt :: "crypto \<Rightarrow> jsstring \<Rightarrow> jsstring \<Rightarrow> error + jsstring" where
  "decrypt cr secret encryptedData =
     (let inputBuffer = Buffer_from_hex encryptedData;
          (salt, iv, tag, encrypted) = envelope_fields inputBuffer;
          key = pbkdf2Sync cr (utf8_encode secret) salt iterations keyLength digest
      in case decipheriv cr algorithm key iv tag (Buffer_from_hex (toString_hex encrypted)) of
           None \<Rightarrow> Inl (ApiError INTERNAL_SERVER_ERROR ''Failed to decrypt data'')
         | Some decrypted \<Rightarrow> Inr (utf8_decode decrypted))"

text \<open>\<open>decrypt(encrypt(data))\<close> under one secret.\<close>

definition decrypt_encrypt :: "crypto \<Rightarrow> jsstring \<Rightarrow> jsstring \<Rightarrow> entropy \<Rightarrow> error + jsstring" where
  "decrypt_encrypt cr secret data rng =
     (case fst (encrypt cr secret data rng) of
        Inl e \<Rightarrow> Inl e
      | Inr envelope \<Rightarrow> decrypt cr secret envelope)"

subsection \<open>\<open>hash\<close> and \<open>verifyHash\<close>\<close>

text \<open>
  No call in the \<open>try\<close> block of \<open>hash\<close> throws on the arguments it is given, so \<open>hash\<close>
  returns its string. In \<open>verifyHash\<close> the comparison throws on a stored hash of another
  length than the derived key.
\<close>

definition hash :: "crypto \<Rightarrow> jsstring \<Rightarrow> entropy \<Rightarrow> jsstring \<times> entropy" where
  "hash cr data rng =
     (let (salt, rng1) = randomBytes saltLength rng;
          h = pbkdf2Sync cr (utf8_encode data) salt iterations keyLength digest
      in (toString_hex (concat [salt, h]), rng1))"

definition verifyHash :: "crypto \<Rightarrow> jsstring \<Rightarrow> jsstring \<Rightarrow> error + bool" where
  "verifyHash cr data storedHash =
     (let inputBuffer = Buffer_from_hex storedHash;
          salt = slice 0 saltLength inputBuffer;
          originalHash = drop saltLength inputBuffer;
          h = pbkdf2Sync cr (utf8_encode data) salt iterations keyLength digest
      in case timingSafeEqual h originalHash of
           None \<Rightarrow> Inl (ApiError INTERNAL_SERVER_ERROR ''Failed to verify hash'')
         | Some equal \<Rightarrow> Inr equal)"

subsection \<open>What the theorems ask of the \<open>crypto\<close> module\<close>

text \<open>
  The functional contract of PBKDF2 and AES-256-GCM as the service uses them: the
  derived key has the requested length; with a 32-byte key and a 16-byte IV the cipher
  does not throw; its tag is 16 bytes long; and the decipher, given the key, IV, tag and
  ciphertext of an encryption, returns its plaintext.
\<close>

definition derives_keylen :: "crypto \<Rightarrow> bool" where
  "derives_keylen cr \<longleftrightarrow>
     (\<forall>password salt keylen. length (pbkdf2Sync cr password salt iterations keylen digest) = keylen)"

definition crypto_contract :: "crypto \<Rightarrow> bool" where
  "crypto_contract cr \<longleftrightarrow>
     derives_keylen cr \<and>
     (\<forall>key iv plaintext. length key = keyLength \<and> length iv = ivLength \<longrightarrow>
        cipheriv cr algorithm key iv plaintext \<noteq> None) \<and>
     (\<forall>key iv plaintext ciphertext tag.
        cipheriv cr algorithm key iv plaintext = Some (ciphertext, tag) \<longrightarrow>
        length tag = tagLength \<and> decipheriv cr algorithm key iv tag ciphertext = Some plaintext)"

text \<open>
  GCM computes the tag from the key, the IV and the ciphertext, so for each of these at
  most one 16-byte tag is accepted.
\<close>

definition one_tag_accepted :: "crypto \<Rightarrow> bool" where
  "one_tag_accepted cr \<longleftrightarrow>
     (\<forall>key iv ciphertext tag tag'.
        length tag = tagLength \<and> length tag' = tagLength \<and>
        decipheriv cr algorithm key iv tag ciphertext \<noteq> None \<and>
        decipheriv cr algorithm key iv tag' ciphertext \<noteq> None \<longrightarrow> tag = tag')"





text \<open>
  An instance of the three calls for evaluating the service on concrete inputs: the key
  is cut from password and salt, the cipher adds a key- and IV-dependent byte to every
  plaintext byte, and the tag is sixteen checksums of the ciphertext.
\<close>

definition sample_pad :: "buffer \<Rightarrow> buffer \<Rightarrow> byte" where
  "sample_pad key iv = sum_list key + sum_list iv"

definition sample_tag :: "buffer \<Rightarrow> buffer \<Rightarrow> buffer \<Rightarrow> buffer" where
  "sample_tag key iv ciphertext =
     map (\<lambda>j. of_nat j + sample_pad key iv + sum_list ciphertext) [0..<16]"

definition sample_crypto :: crypto where
  "sample_crypto =
     \<lparr> pbkdf2Sync = (\<lambda>password salt iters keylen dg. take keylen (password @ salt @ replicate keylen 0)),
       cipheriv = (\<lambda>alg key iv plaintext.
         if length key = 32 \<and> iv \<noteq> [] then
           (let ciphertext = map (\<lambda>b. b + sample_pad key iv) plaintext
            in Some (ciphertext, sample_tag key iv ciphertext))
         else None),
       decipheriv = (\<lambda>alg key iv tag ciphertext.
         if length key = 32 \<and> iv \<noteq> [] \<and> tag = sample_tag key iv ciphertext
         then Some (map (\<lambda>b. b - sample_pad key iv) ciphertext)
         else None) \<rparr>"



definition checksums :: "byte \<Rightarrow> buffer" where
  "checksums x = map (\<lambda>j. of_nat j + x) [0..<16]"


text \<open>
  A third instance, the first one with GCM's handling of short tags: the decipher takes a
  tag of a length GCM allows that is the beginning of the sixteen checksums.
\<close>

definition valid_tag_length :: "nat \<Rightarrow> bool" where
  "valid_tag_length n \<longleftrightarrow> n = 4 \<or> n = 8 \<or> (12 \<le> n \<and> n \<le> 16)"

definition short_tag_crypto :: crypto where
  "short_tag_crypto =
     sample_crypto \<lparr> decipheriv := (\<lambda>alg key iv tag ciphertext.
       if length key = 32 \<and> iv \<noteq> [] \<and> valid_tag_length (length tag) \<and>
          tag = take (length tag) (sample_tag key iv ciphertext)
       then Some (map (\<lambda>b. b - sample_pad key iv) ciphertext)
       else None) \<rparr>"

section \<open>The client's OpenPGP service (\<open>EncryptionService.ts\<close>)\<close>

subsection \<open>What the service takes from \<open>openpgp\<close>\<close>

text \<open>
  A call of the library returns or throws: \<open>Inl\<close> holds the message of the library's
  error. \<open>await\<close> runs the rest of a \<open>try\<close> block on the value a call returned and
  passes an error on.
\<close>

definition await :: "'e + 'a \<Rightarrow> ('a \<Rightarrow> 'e + 'b) \<Rightarrow> 'e + 'b" where
  "await p k = (case p of Inl e \<Rightarrow> Inl e | Inr v \<Rightarrow> k v)"

text \<open>
  An entry of \<open>signatures\<close> carries the promise \<open>verified\<close>, which resolves when the
  signature verifies under one of the verification keys and rejects otherwise.
\<close>

datatype 'a promise = Resolves 'a | Rejects string

datatype signature = Signature (signature_verified: "bool promise")

text \<open>What \<open>openpgp.decrypt\<close> returns: \<open>data\<close>, \<open>filename\<close> and \<open>signatures\<close>.\<close>

datatype 'd decrypt_result =
  Decrypt_result (data: 'd) (embedded_filename: "jsstring option") (signatures: "signature list")

text \<open>
  The calls the service makes, over the library's types of public keys, private keys
  and messages. \<open>openpgp_encrypt message encryptionKeys signingKeys\<close> and
  \<open>openpgp_decrypt message decryptionKeys verificationKeys\<close> take the optional key as
  an option; the \<open>binary\<close> variants are the calls with \<open>binaryMessage\<close> and
  \<open>format: 'binary'\<close>.
\<close>

record ('pub, 'priv, 'msg) openpgp =
  readKey :: "jsstring \<Rightarrow> string + 'pub"
  readPrivateKey :: "jsstring \<Rightarrow> string + 'priv"
  decryptKey :: "'priv \<Rightarrow> jsstring \<Rightarrow> string + 'priv"
  createMessage :: "jsstring \<Rightarrow> 'msg"
  readMessage :: "jsstring \<Rightarrow> string + 'msg"
  readMessage_binary :: "buffer \<Rightarrow> string + 'msg"
  openpgp_encrypt :: "'msg \<Rightarrow> 'pub \<Rightarrow> 'priv option \<Rightarrow> string + jsstring"
  openpgp_decrypt :: "'msg \<Rightarrow> 'priv \<Rightarrow> 'pub option \<Rightarrow> string + jsstring decrypt_result"
  openpgp_decrypt_binary :: "'msg \<Rightarrow> 'priv \<Rightarrow> 'pub option \<Rightarrow> string + buffer decrypt_result"

text \<open>
  An optional string parameter is \<open>None\<close> when the caller leaves it out. JavaScript's
  \<open>if (s)\<close> takes the branch when \<open>s\<close> is given and is not the empty string.
\<close>

definition truthy :: "jsstring option \<Rightarrow> bool" where
  "truthy s = (case s of None \<Rightarrow> False | Some v \<Rightarrow> v \<noteq> [])"

subsection \<open>\<open>encryptMessage\<close>\<close>

text \<open>The \<open>try\<close> block: the signing key is unlocked only under \<open>senderPrivateKey && passphrase\<close>.\<close>

definition encryptMessage_try ::
  "('pub, 'priv, 'msg) openpgp \<Rightarrow> jsstring \<Rightarrow> jsstring \<Rightarrow> jsstring option \<Rightarrow> jsstring option
     \<Rightarrow> string + jsstring" where
  "encryptMessage_try pgp message recipientPublicKey senderPrivateKey passphrase =
     await (readKey pgp recipientPublicKey) (\<lambda>publicKey.
       let msg = createMessage pgp message in
       await
         (case (senderPrivateKey, passphrase) of
            (Some sk, Some pp) \<Rightarrow>
              if sk \<noteq> [] \<and> pp \<noteq> [] then
                await (readPrivateKey pgp sk) (\<lambda>locked.
                  await (decryptKey pgp locked pp) (\<lambda>privateKey. Inr (Some privateKey)))
              else Inr None
          | _ \<Rightarrow> Inr None)
         (\<lambda>signingKeys. openpgp_encrypt pgp msg publicKey signingKeys))"

definition encryptMessage ::
  "('pub, 'priv, 'msg) openpgp \<Rightarrow> jsstring \<Rightarrow> jsstring \<Rightarrow> jsstring option \<Rightarrow> jsstring option
     \<Rightarrow> error + jsstring" where
  "encryptMessage pgp message recipientPublicKey senderPrivateKey passphrase =
     (case encryptMessage_try pgp message recipientPublicKey senderPrivateKey passphrase of
        Inl e \<Rightarrow> Inl (Error ''Kunne ikke kryptere beskeden'')
      | Inr encrypted \<Rightarrow> Inr encrypted)"

subsection \<open>\<open>decryptMessage\<close> and \<open>decryptFile\<close>\<close>

record verification =
  verified :: bool

record decrypted_message = verification +
  message :: jsstring

record decrypted_file = verification +
  decryptedData :: buffer
  filename :: jsstring

text \<open>
  \<open>let verified = false\<close>, set to \<open>true\<close> when there is a signature and awaiting the
  first one's promise does not throw.
\<close>

definition first_signature_verified :: "signature list \<Rightarrow> bool" where
  "first_signature_verified sigs =
     (case sigs of
        [] \<Rightarrow> False
      | s # _ \<Rightarrow> (case signature_verified s of Resolves _ \<Rightarrow> True | Rejects _ \<Rightarrow> False))"

text \<open>
  The calls of \<open>decryptMessage\<close> up to \<open>openpgp.decrypt\<close>: unlock the private key, read
  the message, read the sender's key under \<open>if (senderPublicKey)\<close>, decrypt.
\<close>

definition decryptMessage_try ::
  "('pub, 'priv, 'msg) openpgp \<Rightarrow> jsstring \<Rightarrow> jsstring \<Rightarrow> jsstring \<Rightarrow> jsstring option
     \<Rightarrow> string + jsstring decrypt_result" where
  "decryptMessage_try pgp encryptedMessage privateKey passphrase senderPublicKey =
     await (readPrivateKey pgp privateKey) (\<lambda>locked.
       await (decryptKey pgp locked passphrase) (\<lambda>decryptedPrivateKey.
         await (readMessage pgp encryptedMessage) (\<lambda>msg.
           await
             (case senderPublicKey of
                None \<Rightarrow> Inr None
              | Some spk \<Rightarrow>
                  if spk \<noteq> [] then await (readKey pgp spk) (\<lambda>k. Inr (Some k)) else Inr None)
             (\<lambda>verificationKeys. openpgp_decrypt pgp msg decryptedPrivateKey verificationKeys))))"

definition decryptMessage ::
  "('pub, 'priv, 'msg) openpgp \<Rightarrow> jsstring \<Rightarrow> jsstring \<Rightarrow> jsstring \<Rightarrow> jsstring option
     \<Rightarrow> error + decrypted_message" where
  "decryptMessage pgp encryptedMessage privateKey passphrase senderPublicKey =
     (case decryptMessage_try pgp encryptedMessage privateKey passphrase senderPublicKey of
        Inl e \<Rightarrow> Inl (Error ''Kunne ikke dekryptere beskeden'')
      | Inr r \<Rightarrow>
          Inr \<lparr> verified = first_signature_verified (signatures r), message = data r \<rparr>)"

definition decryptFile_try ::
  "('pub, 'priv, 'msg) openpgp \<Rightarrow> buffer \<Rightarrow> jsstring \<Rightarrow> jsstring \<Rightarrow> jsstring option
     \<Rightarrow> string + buffer decrypt_result" where
  "decryptFile_try pgp encryptedData privateKey passphrase senderPublicKey =
     await (readPrivateKey pgp privateKey) (\<lambda>locked.
       await (decryptKey pgp locked passphrase) (\<lambda>decryptedPrivateKey.
         await (readMessage_binary pgp encryptedData) (\<lambda>msg.
           await
             (case senderPublicKey of
                None \<Rightarrow> Inr None
              | Some spk \<Rightarrow>
                  if spk \<noteq> [] then await (readKey pgp spk) (\<lambda>k. Inr (Some k)) else Inr None)
             (\<lambda>verificationKeys.
                openpgp_decrypt_binary pgp msg decryptedPrivateKey verificationKeys))))"

text \<open>\<open>filename || 'decrypted_file'\<close>: the fallback stands in for a missing or empty name.\<close>

definition decryptFile ::
  "('pub, 'priv, 'msg) openpgp \<Rightarrow> buffer \<Rightarrow> jsstring \<Rightarrow> jsstring \<Rightarrow> jsstring option
     \<Rightarrow> error + decrypted_file" where
  "decryptFile pgp encryptedData privateKey passphrase senderPublicKey =
     (case decryptFile_try pgp encryptedData privateKey passphrase senderPublicKey of
        Inl e \<Rightarrow> Inl (Error ''Kunne ikke dekryptere filen'')
      | Inr r \<Rightarrow>
          Inr \<lparr> verified = first_signature_verified (signatures r),
                decryptedData = data r,
                filename =
                  (case embedded_filename r of
                     None \<Rightarrow> js ''decrypted_file''
                   | Some name \<Rightarrow> if name \<noteq> [] then name else js ''decrypted_file'') \<rparr>)"

subsection \<open>What the theorems ask of \<open>openpgp\<close>\<close>

text \<open>
  OpenPGP.js carries a text in a literal data packet. It writes the text as UTF-8 with
  every line ending as CR LF, and reads it back with CR LF as LF through a UTF-8 decoder
  that drops a leading byte order mark. \<open>text_literal\<close> is the text that comes back:
  unpaired surrogates are U+FFFD, a CR directly before an LF is gone, and so is a leading
  U+FEFF.
\<close>

fun crlf_to_lf :: "jsstring \<Rightarrow> jsstring" where
  "crlf_to_lf (a # b # rest) =
     (if a = 0x0D \<and> b = 0x0A then 0x0A # crlf_to_lf rest else a # crlf_to_lf (b # rest))"
| "crlf_to_lf rest = rest"

definition strip_bom :: "jsstring \<Rightarrow> jsstring" where
  "strip_bom s = (case s of [] \<Rightarrow> [] | c # rest \<Rightarrow> if c = 0xFEFF then rest else s)"

definition text_literal :: "jsstring \<Rightarrow> jsstring" where
  "text_literal text = strip_bom (crlf_to_lf (toWellFormed text))"

text \<open>The texts this handling leaves as they are: no CR LF and no leading U+FEFF.\<close>

fun has_crlf :: "jsstring \<Rightarrow> bool" where
  "has_crlf (a # b # rest) = ((a = 0x0D \<and> b = 0x0A) \<or> has_crlf (b # rest))"
| "has_crlf rest = False"

definition starts_with_bom :: "jsstring \<Rightarrow> bool" where
  "starts_with_bom s = (case s of [] \<Rightarrow> False | c # rest \<Rightarrow> c = 0xFEFF)"

text \<open>
  A valid key pair with its passphrase: the public key and the private key parse, the
  passphrase unlocks the private key, and the two keys belong together: whatever text
  \<open>openpgp.encrypt\<close> is given for the public key, unsigned and armoured,
  \<open>openpgp.readMessage\<close> reads its output and \<open>openpgp.decrypt\<close> with the unlocked private
  key returns the text as its literal data packet carries it.
\<close>

definition valid_key_pair ::
  "('pub, 'priv, 'msg) openpgp \<Rightarrow> jsstring \<Rightarrow> jsstring \<Rightarrow> jsstring \<Rightarrow> bool" where
  "valid_key_pair pgp pub priv passphrase \<longleftrightarrow>
     (\<exists>publicKey locked privateKey.
        readKey pgp pub = Inr publicKey \<and>
        readPrivateKey pgp priv = Inr locked \<and>
        decryptKey pgp locked passphrase = Inr privateKey \<and>
        (\<forall>text. \<exists>armored msg r.
           openpgp_encrypt pgp (createMessage pgp text) publicKey None = Inr armored \<and>
           readMessage pgp armored = Inr msg \<and>
           openpgp_decrypt pgp msg privateKey None = Inr r \<and>
           data r = text_literal text))"

text \<open>The passphrase unlocks the armoured private key: it parses, and \<open>decryptKey\<close> returns.\<close>

definition unlocks :: "('pub, 'priv, 'msg) openpgp \<Rightarrow> jsstring \<Rightarrow> jsstring \<Rightarrow> bool" where
  "unlocks pgp armoredKey passphrase =
     (case readPrivateKey pgp armoredKey of
        Inl e \<Rightarrow> False
      | Inr locked \<Rightarrow> (case decryptKey pgp locked passphrase of Inl e \<Rightarrow> False | Inr k \<Rightarrow> True))"

text \<open>
  Without verification keys the library finds no key for any signature, and each
  \<open>verified\<close> promise rejects.
\<close>

definition rejects_without_keys :: "('pub, 'priv, 'msg) openpgp \<Rightarrow> bool" where
  "rejects_without_keys pgp \<longleftrightarrow>
     (\<forall>msg key r s.
        openpgp_decrypt pgp msg key None = Inr r \<and> s \<in> set (signatures r) \<longrightarrow>
        (\<exists>e. signature_verified s = Rejects e))"

subsection \<open>An instance of the library for evaluating the service\<close>

text \<open>
  Keys are numbers. An armoured public key is \<open>P\<close> and the key's number; an armoured
  private key is \<open>S\<close>, the number and the passphrase that locks it; an armoured message
  is \<open>M\<close>, the recipient's number, the signer's number (0 when unsigned) and the text.
  A binary message is the recipient, the signer, the length of the file name, the file
  name and the data.
\<close>

datatype sample_message =
  Literal jsstring
  | Sealed_text nat nat jsstring
  | Sealed_binary nat nat jsstring buffer

definition sample_readKey :: "jsstring \<Rightarrow> string + nat" where
  "sample_readKey armoredKey =
     (case armoredKey of
        [t, i] \<Rightarrow> if t = 0x50 then Inr (unat i) else Inl ''Misformed armored text''
      | _ \<Rightarrow> Inl ''Misformed armored text'')"

definition sample_readPrivateKey :: "jsstring \<Rightarrow> string + nat \<times> jsstring option" where
  "sample_readPrivateKey armoredKey =
     (case armoredKey of
        t # i # lock \<Rightarrow>
          if t = 0x53 then Inr (unat i, Some lock) else Inl ''Misformed armored text''
      | _ \<Rightarrow> Inl ''Misformed armored text'')"

definition sample_decryptKey ::
  "nat \<times> jsstring option \<Rightarrow> jsstring \<Rightarrow> string + nat \<times> jsstring option" where
  "sample_decryptKey privateKey passphrase =
     (case snd privateKey of
        None \<Rightarrow> Inl ''Key packet is already decrypted''
      | Some lock \<Rightarrow>
          if lock = passphrase then Inr (fst privateKey, None)
          else Inl ''Incorrect key passphrase'')"

definition sample_encrypt ::
  "sample_message \<Rightarrow> nat \<Rightarrow> (nat \<times> jsstring option) option \<Rightarrow> string + jsstring" where
  "sample_encrypt msg encryptionKeys signingKeys =
     (case msg of
        Literal t \<Rightarrow>
          (case signingKeys of
             None \<Rightarrow> Inr (0x4D # of_nat encryptionKeys # 0 # t)
           | Some k \<Rightarrow>
               if snd k = None then Inr (0x4D # of_nat encryptionKeys # of_nat (fst k) # t)
               else Inl ''Signing key is not decrypted'')
      | _ \<Rightarrow> Inl ''No literal data to encrypt'')"

definition sample_readMessage :: "jsstring \<Rightarrow> string + sample_message" where
  "sample_readMessage armoredMessage =
     (case armoredMessage of
        t # r # sg # txt \<Rightarrow>
          if t = 0x4D then Inr (Sealed_text (unat r) (unat sg) txt)
          else Inl ''Misformed armored text''
      | _ \<Rightarrow> Inl ''Misformed armored text'')"

definition sample_readMessage_binary :: "buffer \<Rightarrow> string + sample_message" where
  "sample_readMessage_binary binaryMessage =
     (case binaryMessage of
        r # sg # n # rest \<Rightarrow>
          Inr (Sealed_binary (unat r) (unat sg) (map ucast (take (unat n) rest))
                 (drop (unat n) rest))
      | _ \<Rightarrow> Inl ''Invalid packet'')"

definition sample_signatures :: "nat \<Rightarrow> nat option \<Rightarrow> signature list" where
  "sample_signatures signer verificationKeys =
     (if signer = 0 then []
      else [Signature (if verificationKeys = Some signer then Resolves True
                       else Rejects ''Could not find signing key'')])"

definition sample_decrypt ::
  "sample_message \<Rightarrow> nat \<times> jsstring option \<Rightarrow> nat option \<Rightarrow> string + jsstring decrypt_result" where
  "sample_decrypt msg decryptionKeys verificationKeys =
     (case msg of
        Sealed_text r sg txt \<Rightarrow>
          if snd decryptionKeys \<noteq> None then Inl ''Decryption key is not decrypted''
          else if r \<noteq> fst decryptionKeys then Inl ''Session key decryption failed''
          else Inr (Decrypt_result txt None (sample_signatures sg verificationKeys))
      | _ \<Rightarrow> Inl ''Message is not a text message'')"

definition sample_decrypt_binary ::
  "sample_message \<Rightarrow> nat \<times> jsstring option \<Rightarrow> nat option \<Rightarrow> string + buffer decrypt_result" where
  "sample_decrypt_binary msg decryptionKeys verificationKeys =
     (case msg of
        Sealed_binary r sg name d \<Rightarrow>
          if snd decryptionKeys \<noteq> None then Inl ''Decryption key is not decrypted''
          else if r \<noteq> fst decryptionKeys then Inl ''Session key decryption failed''
          else Inr (Decrypt_result d (Some name) (sample_signatures sg verificationKeys))
      | _ \<Rightarrow> Inl ''Message is not a binary message'')"

definition sample_openpgp :: "(nat, nat \<times> jsstring option, sample_message) openpgp" where
  "sample_openpgp =
     \<lparr> readKey = sample_readKey,
       readPrivateKey = sample_readPrivateKey,
       decryptKey = sample_decryptKey,
       createMessage = Literal,
       readMessage = sample_readMessage,
       readMessage_binary = sample_readMessage_binary,
       openpgp_encrypt = sample_encrypt,
       openpgp_decrypt = sample_decrypt,
       openpgp_decrypt_binary = sample_decrypt_binary \<rparr>"

text \<open>
  The same instance with the library's handling of a text: \<open>createMessage\<close> holds the text
  as the literal data packet returns it.
\<close>

definition text_openpgp :: "(nat, nat \<times> jsstring option, sample_message) openpgp" where
  "text_openpgp = sample_openpgp \<lparr> createMessage := (\<lambda>text. Literal (text_literal text)) \<rparr>"

section \<open>Properties of the encodings\<close>

subsection \<open>\<open>hex\<close> decodes what it encodes\<close>

lemma unhex_hex_digit: "d < 16 \<Longrightarrow> unhex (hex_digit d) = Some d"
  by (auto simp add: unhex_def hex_digit_def unat_of_nat Let_def)

lemma toString_hex_Cons:
  "toString_hex (b # buf) = hex_digit (unat b div 16) # hex_digit (unat b mod 16) # toString_hex buf"
  by (simp add: toString_hex_def)

lemma byte_div_16: "unat (b :: byte) div 16 < 16"
  using unsigned_less [of b, where 'a = nat] by simp

lemma Buffer_from_hex_toString_hex: "Buffer_from_hex (toString_hex buf) = buf"
proof (induction buf)
  case Nil
  show ?case by (simp add: toString_hex_def)
next
  case (Cons b buf)
  have "(of_nat (16 * (unat b div 16) + unat b mod 16) :: byte) = b"
    by simp
  then show ?case
    using Cons.IH by (simp add: toString_hex_Cons unhex_hex_digit byte_div_16)
qed

subsection \<open>Overwriting one character of a hex string\<close>

lemma unhex_less: "unhex c = Some v \<Longrightarrow> v < 16"
  by (auto simp add: unhex_def Let_def split: if_splits)



lemma Buffer_from_hex_update:
  assumes "i < 2 * length buf" "unhex c = Some v"
  shows "Buffer_from_hex ((toString_hex buf)[i := c]) = buf[i div 2 := put_digit i v (buf ! (i div 2))]"
  using assms(1)
proof (induction buf arbitrary: i)
  case Nil
  then show ?case by simp
next
  case (Cons b buf)
  have b: "(of_nat (16 * (unat b div 16) + unat b mod 16) :: byte) = b"
    by simp
  show ?case
  proof (cases i)
    case 0
    then show ?thesis
      using assms(2)
      by (simp add: toString_hex_Cons unhex_hex_digit byte_div_16 put_digit_def
          Buffer_from_hex_toString_hex)
  next
    case (Suc j)
    show ?thesis
    proof (cases j)
      case 0
      with Suc show ?thesis
        using assms(2)
        by (simp add: toString_hex_Cons unhex_hex_digit byte_div_16 put_digit_def
            Buffer_from_hex_toString_hex)
    next
      case (Suc k)
      then have i: "i = Suc (Suc k)" using \<open>i = Suc j\<close> by simp
      then have "k < 2 * length buf" using Cons.prems by simp
      then have "Buffer_from_hex ((toString_hex buf)[k := c]) = buf[k div 2 := put_digit k v (buf ! (k div 2))]"
        by (rule Cons.IH)
      then show ?thesis
        using b by (simp add: i toString_hex_Cons unhex_hex_digit byte_div_16 put_digit_def)
    qed
  qed
qed

lemma toString_hex_nth:
  "i < 2 * length buf \<Longrightarrow>
   toString_hex buf ! i =
     (if even i then hex_digit (unat (buf ! (i div 2)) div 16)
      else hex_digit (unat (buf ! (i div 2)) mod 16))"
proof (induction buf arbitrary: i)
  case Nil
  then show ?case by simp
next
  case (Cons b buf)
  show ?case
  proof (cases i)
    case 0
    then show ?thesis by (simp add: toString_hex_Cons)
  next
    case (Suc j)
    show ?thesis
    proof (cases j)
      case 0
      with Suc show ?thesis by (simp add: toString_hex_Cons)
    next
      case (Suc k)
      then have i: "i = Suc (Suc k)" using \<open>i = Suc j\<close> by simp
      then have "k < 2 * length buf" using Cons.prems by simp
      then show ?thesis
        using Cons.IH [of k] by (simp add: i toString_hex_Cons)
    qed
  qed
qed

lemma high_digit: "16 * v + x mod 16 = x \<Longrightarrow> v = x div 16" for v x :: nat
proof -
  assume a: "16 * v + x mod 16 = x"
  have "(16 * v + x mod 16) div 16 = v" by simp
  then show ?thesis by (simp only: a)
qed

lemma low_digit: "16 * d + v = x \<Longrightarrow> v < 16 \<Longrightarrow> v = x mod 16" for v x :: nat
proof -
  assume a: "16 * d + v = x" and b: "v < 16"
  have "(16 * d + v) mod 16 = v" using b by simp
  then show ?thesis by (simp only: a)
qed

lemma put_digit_changes:
  assumes "i < 2 * length buf" "unhex c = Some v" "unhex c \<noteq> unhex (toString_hex buf ! i)"
  shows "put_digit i v (buf ! (i div 2)) \<noteq> buf ! (i div 2)"
proof
  let ?b = "buf ! (i div 2)"
  assume eq: "put_digit i v ?b = ?b"
  have v: "v < 16" using assms(2) by (rule unhex_less)
  have m: "unat ?b mod 16 < 16" by simp
  have small: "unat (of_nat n :: byte) = n" if "n < 256" for n
    using that by (simp add: unat_of_nat)
  show False
  proof (cases "even i")
    case True
    then have "v \<noteq> unat ?b div 16"
      using assms by (simp add: toString_hex_nth unhex_hex_digit byte_div_16)
    moreover have "unat (of_nat (16 * v + unat ?b mod 16) :: byte) = 16 * v + unat ?b mod 16"
      using v m by (intro small) linarith
    then have "16 * v + unat ?b mod 16 = unat ?b"
      using eq True by (simp add: put_digit_def)
    then have "v = unat ?b div 16" by (rule high_digit)
    ultimately show False by simp
  next
    case False
    then have "v \<noteq> unat ?b mod 16"
      using assms by (simp add: toString_hex_nth unhex_hex_digit)
    moreover have "unat (of_nat (16 * (unat ?b div 16) + v) :: byte) = 16 * (unat ?b div 16) + v"
      using v byte_div_16 [of ?b] by (intro small) linarith
    then have "16 * (unat ?b div 16) + v = unat ?b"
      using eq False by (simp add: put_digit_def)
    then have "v = unat ?b mod 16" using v by (rule low_digit)
    ultimately show False by simp
  qed
qed

lemma Buffer_from_hex_cut:
  assumes "i < 2 * length buf" "unhex c = None"
  shows "Buffer_from_hex ((toString_hex buf)[i := c]) = take (i div 2) buf"
  using assms(1)
proof (induction buf arbitrary: i)
  case Nil
  then show ?case by simp
next
  case (Cons b buf)
  have b: "(of_nat (16 * (unat b div 16) + unat b mod 16) :: byte) = b"
    by simp
  show ?case
  proof (cases i)
    case 0
    then show ?thesis
      using assms(2) by (simp add: toString_hex_Cons)
  next
    case (Suc j)
    show ?thesis
    proof (cases j)
      case 0
      with Suc show ?thesis
        using assms(2) by (simp add: toString_hex_Cons unhex_hex_digit byte_div_16)
    next
      case (Suc k)
      then have i: "i = Suc (Suc k)" using \<open>i = Suc j\<close> by simp
      then have "k < 2 * length buf" using Cons.prems by simp
      then have "Buffer_from_hex ((toString_hex buf)[k := c]) = take (k div 2) buf"
        by (rule Cons.IH)
      then show ?thesis
        using b by (simp add: i toString_hex_Cons unhex_hex_digit byte_div_16)
    qed
  qed
qed


subsection \<open>\<open>utf8\<close> decodes what it encodes, up to \<open>toWellFormed\<close>\<close>

lemma read_continuation_0: "read_continuation 0 cp lower upper bs = (cp, bs)"
  by (cases bs) simp_all

lemma decode_one_1: "b < 0x80 \<Longrightarrow> decode_one b rest = (b, rest)"
  by (simp add: decode_one_def)

lemma decode_one_2:
  assumes "2 \<le> d" "d < 32" "m < 64"
  shows "decode_one (0xC0 + d) ((0x80 + m) # rest) = (d * 64 + m, rest)"
  using assms by (simp add: decode_one_def read_continuation_0)

lemma decode_one_3:
  assumes "d < 16" "m1 < 64" "m2 < 64" "d = 0 \<longrightarrow> 32 \<le> m1" "d = 13 \<longrightarrow> m1 < 32"
  shows "decode_one (0xE0 + d) ((0x80 + m1) # (0x80 + m2) # rest) = ((d * 64 + m1) * 64 + m2, rest)"
  using assms by (auto simp add: decode_one_def read_continuation_0)

lemma decode_one_4:
  assumes "d < 5" "m1 < 64" "m2 < 64" "m3 < 64" "d = 0 \<longrightarrow> 16 \<le> m1" "d = 4 \<longrightarrow> m1 < 16"
  shows "decode_one (0xF0 + d) ((0x80 + m1) # (0x80 + m2) # (0x80 + m3) # rest)
         = (((d * 64 + m1) * 64 + m2) * 64 + m3, rest)"
  using assms by (auto simp add: decode_one_def read_continuation_0)

lemma split64: "q div 64 = d \<Longrightarrow> q = 64 * d + q mod 64" for q :: nat
  by auto

lemma three_byte_low: 
  fixes cp :: nat
  assumes "0x800 \<le> cp" "cp div 64 div 64 = 0" shows "32 \<le> cp div 64 mod 64"
proof -
  have "32 \<le> cp div 64" using div_le_mono [OF assms(1), of 64] by simp
  moreover have "cp div 64 = cp div 64 mod 64" using split64 [OF assms(2)] by simp
  ultimately show ?thesis by simp
qed

lemma three_byte_high: 
  fixes cp :: nat
  assumes "\<not> (0xD800 \<le> cp \<and> cp \<le> 0xDFFF)" "cp div 64 div 64 = 13" 
  shows "cp div 64 mod 64 < 32"
proof -
  have q: "cp div 64 = 832 + cp div 64 mod 64" using split64 [OF assms(2)] by simp
  have "cp < 0xD800"
  proof (rule ccontr)
    assume "\<not> cp < 0xD800"
    then have "0xE000 \<le> cp" using assms(1) by simp
    then have "896 \<le> cp div 64" using div_le_mono [of "0xE000" cp 64] by simp
    then have "14 \<le> cp div 64 div 64" using div_le_mono [of 896 "cp div 64" 64] by simp
    then show False using assms(2) by simp
  qed
  then have "cp div 64 < 864" by simp
  then show ?thesis using q by linarith
qed

lemma four_byte_low: 
  fixes cp :: nat
  assumes "0x10000 \<le> cp" "cp div 64 div 64 div 64 = 0" 
  shows "16 \<le> cp div 64 div 64 mod 64"
proof -
  have "1024 \<le> cp div 64" using div_le_mono [OF assms(1), of 64] by simp
  then have "16 \<le> cp div 64 div 64" using div_le_mono [of 1024 "cp div 64" 64] by simp
  moreover have "cp div 64 div 64 = cp div 64 div 64 mod 64" using split64 [OF assms(2)] by simp
  ultimately show ?thesis by simp
qed

lemma four_byte_high: 
  fixes cp :: nat
  assumes "cp < 0x110000" "cp div 64 div 64 div 64 = 4" 
  shows "cp div 64 div 64 mod 64 < 16"
proof -
  have q: "cp div 64 div 64 = 256 + cp div 64 div 64 mod 64" using split64 [OF assms(2)] by simp
  have "cp div 64 div 64 < 272" using assms(1) by simp
  then show ?thesis using q by linarith
qed

lemma div_4096: "cp div 4096 = cp div 64 div 64" for cp :: nat
proof -
  have "cp div (64 * 64) = cp div 64 div 64" by (rule div_mult2_eq)
  then show ?thesis by simp
qed

lemma div_262144: "cp div 262144 = cp div 64 div 64 div 64" for cp :: nat
proof -
  have "cp div (4096 * 64) = cp div 4096 div 64" by (rule div_mult2_eq)
  then show ?thesis by (simp add: div_4096)
qed

lemma utf8_of_code_point_nested:
  "utf8_of_code_point cp =
     (if cp < 0x80 then [cp]
      else if cp < 0x800 then [0xC0 + cp div 64, 0x80 + cp mod 64]
      else if cp < 0x10000 then [0xE0 + cp div 64 div 64, 0x80 + cp div 64 mod 64, 0x80 + cp mod 64]
      else [0xF0 + cp div 64 div 64 div 64, 0x80 + cp div 64 div 64 mod 64, 0x80 + cp div 64 mod 64,
            0x80 + cp mod 64])"
  by (simp add: utf8_of_code_point_def div_4096 div_262144)

lemma decode_one_encode:
  assumes "scalar_value cp"
  shows "\<exists>b bs. utf8_of_code_point cp = b # bs \<and> decode_one b (bs @ rest) = (cp, rest)"
proof -
  consider "cp < 0x80" | "0x80 \<le> cp" "cp < 0x800" | "0x800 \<le> cp" "cp < 0x10000" | "0x10000 \<le> cp"
    by linarith
  then show ?thesis
  proof cases
    case 1
    then show ?thesis by (simp add: utf8_of_code_point_def decode_one_1)
  next
    case 2
    have "decode_one (0xC0 + cp div 64) ((0x80 + cp mod 64) # rest) = (cp div 64 * 64 + cp mod 64, rest)"
    proof (rule decode_one_2)
      show "2 \<le> cp div 64" using div_le_mono [OF 2(1), of 64] by simp
      show "cp div 64 < 32" using 2(2) by simp
    qed simp
    with 2 show ?thesis by (simp add: utf8_of_code_point_def)
  next
    case 3
    have "decode_one (0xE0 + cp div 64 div 64) ((0x80 + cp div 64 mod 64) # (0x80 + cp mod 64) # rest)
        = ((cp div 64 div 64 * 64 + cp div 64 mod 64) * 64 + cp mod 64, rest)"
    proof (rule decode_one_3)
      show "cp div 64 div 64 < 16" using 3(2) by simp
      show "cp div 64 div 64 = 0 \<longrightarrow> 32 \<le> cp div 64 mod 64" using three_byte_low [OF 3(1)] by simp
      show "cp div 64 div 64 = 13 \<longrightarrow> cp div 64 mod 64 < 32"
        using three_byte_high assms unfolding scalar_value_def by simp
    qed simp_all
    with 3 show ?thesis by (simp add: utf8_of_code_point_nested)
  next
    case 4
    have lt: "cp < 0x110000" using assms unfolding scalar_value_def by simp
    have "decode_one (0xF0 + cp div 64 div 64 div 64)
           ((0x80 + cp div 64 div 64 mod 64) # (0x80 + cp div 64 mod 64) # (0x80 + cp mod 64) # rest)
        = (((cp div 64 div 64 div 64 * 64 + cp div 64 div 64 mod 64) * 64 + cp div 64 mod 64) * 64 + cp mod 64, rest)"
    proof (rule decode_one_4)
      show "cp div 64 div 64 div 64 < 5" using lt by simp
      show "cp div 64 div 64 div 64 = 0 \<longrightarrow> 16 \<le> cp div 64 div 64 mod 64" using four_byte_low [OF 4] by simp
      show "cp div 64 div 64 div 64 = 4 \<longrightarrow> cp div 64 div 64 mod 64 < 16" using four_byte_high [OF lt] by simp
    qed simp_all
    with 4 show ?thesis by (simp add: utf8_of_code_point_nested)
  qed
qed

lemma utf8_code_points_encode:
  assumes "scalar_value cp"
  shows "utf8_code_points (utf8_of_code_point cp @ rest) = cp # utf8_code_points rest"
proof -
  obtain b bs where "utf8_of_code_point cp = b # bs" "decode_one b (bs @ rest) = (cp, rest)"
    using decode_one_encode [OF assms] by blast
  then show ?thesis by simp
qed

lemma utf8_code_points_concat:
  "\<forall>cp \<in> set cps. scalar_value cp \<Longrightarrow> utf8_code_points (concat (map utf8_of_code_point cps)) = cps"
  by (induction cps) (simp_all add: utf8_code_points_encode)

lemma utf8_of_code_point_bytes:
  assumes "cp < 0x110000" "b \<in> set (utf8_of_code_point cp)"
  shows "b < 256"
proof -
  have "cp div 64 div 64 div 64 < 5" "cp mod 64 < 64" "cp div 64 mod 64 < 64" "cp div 64 div 64 mod 64 < 64"
    using assms(1) by simp_all
  moreover have "cp < 0x10000 \<Longrightarrow> cp div 64 div 64 < 16" "cp < 0x800 \<Longrightarrow> cp div 64 < 32"
    by simp_all
  ultimately show ?thesis
    using assms(2) unfolding utf8_of_code_point_nested
    by (auto split: if_splits)
qed

lemma scalar_value_pair:
  assumes "is_high_surrogate u" "is_low_surrogate l"
  shows "scalar_value (0x10000 + (u - 0xD800) * 1024 + (l - 0xDC00))"
proof -
  have "u - 0xD800 \<le> 1023" "l - 0xDC00 \<le> 1023"
    using assms by (auto simp add: is_high_surrogate_def is_low_surrogate_def)
  then have "(u - 0xD800) * 1024 \<le> 1023 * 1024" "l - 0xDC00 \<le> 1023"
    by simp_all
  then show ?thesis
    unfolding scalar_value_def by linarith
qed

lemma scalar_value_unit:
  "u < 0x10000 \<Longrightarrow> \<not> is_high_surrogate u \<Longrightarrow> \<not> is_low_surrogate u \<Longrightarrow> scalar_value u"
  unfolding scalar_value_def is_high_surrogate_def is_low_surrogate_def by linarith

lemma scalar_value_replacement: "scalar_value 0xFFFD"
  by (simp add: scalar_value_def)

lemma code_points_scalar:
  "\<forall>u \<in> set us. u < 0x10000 \<Longrightarrow> \<forall>cp \<in> set (code_points us). scalar_value cp"
proof (induction us rule: code_points.induct)
  case 1
  show ?case by simp
next
  case (2 u)
  then show ?case
    by (simp add: scalar_value_replacement scalar_value_unit)
next
  case (3 u l r)
  then show ?case
    by (simp add: scalar_value_replacement scalar_value_unit scalar_value_pair)
qed

lemma utf16_of_supplementary:
  "r < 1024 \<Longrightarrow> utf16_of_code_point (0x10000 + a * 1024 + r) = [0xD800 + a, 0xDC00 + r]"
  by (simp add: utf16_of_code_point_def)

lemma utf16_of_pair:
  assumes "is_high_surrogate u" "is_low_surrogate l"
  shows "utf16_of_code_point (0x10000 + (u - 0xD800) * 1024 + (l - 0xDC00)) = [u, l]"
proof -
  have "l - 0xDC00 < 1024" "0xDC00 + (l - 0xDC00) = l" "0xD800 + (u - 0xD800) = u"
    using assms by (auto simp add: is_high_surrogate_def is_low_surrogate_def)
  then show ?thesis
    using utf16_of_supplementary [of "l - 0xDC00" "u - 0xD800"] by simp
qed

lemma utf16_of_code_points_well_formed:
  "\<forall>u \<in> set us. u < 0x10000 \<Longrightarrow> well_formed us \<Longrightarrow>
   concat (map utf16_of_code_point (code_points us)) = us"
proof (induction us rule: code_points.induct)
  case 1
  show ?case by simp
next
  case (2 u)
  then show ?case by (simp add: utf16_of_code_point_def)
next
  case (3 u l r)
  show ?case
  proof (cases "is_high_surrogate u")
    case True
    with 3 show ?thesis by (simp add: utf16_of_pair)
  next
    case False
    with 3 show ?thesis by (simp add: utf16_of_code_point_def)
  qed
qed

lemma map_unat_of_nat_bytes:
  "\<forall>b \<in> set bs. b < 256 \<Longrightarrow> map unat (map of_nat bs :: buffer) = bs"
  by (induction bs) (simp_all add: unat_of_nat)

lemma unat_code_unit: "unat (u :: 16 word) < 0x10000"
  using unsigned_less [of u, where 'a = nat] by simp

lemma utf8_decode_encode: "utf8_decode (utf8_encode s) = toWellFormed s"
proof -
  let ?cps = "code_points (map unat s)"
  have sc: "\<forall>cp \<in> set ?cps. scalar_value cp"
    by (rule code_points_scalar) (simp add: unat_code_unit)
  then have "\<forall>b \<in> set (concat (map utf8_of_code_point ?cps)). b < 256"
    by (auto simp add: scalar_value_def intro: utf8_of_code_point_bytes)
  then have "map unat (utf8_encode s) = concat (map utf8_of_code_point ?cps)"
    unfolding utf8_encode_def by (rule map_unat_of_nat_bytes)
  then show ?thesis
    by (simp add: utf8_decode_def toWellFormed_def utf8_code_points_concat [OF sc])
qed

lemma toWellFormed_id: "isWellFormed s \<Longrightarrow> toWellFormed s = s"
proof -
  assume "isWellFormed s"
  then have "concat (map utf16_of_code_point (code_points (map unat s))) = map unat s"
    unfolding isWellFormed_def
    by (intro utf16_of_code_points_well_formed) (simp_all add: unat_code_unit)
  then show ?thesis by (simp add: toWellFormed_def comp_def)
qed

section \<open>Properties of the symmetric service\<close>

lemma randomBytes_length: "length (fst (randomBytes n rng)) = n"
  by (simp add: randomBytes_def)

lemma drawn_lengths: "length (drawn_iv rng) = ivLength" "length (drawn_salt rng) = saltLength"
  by (simp_all add: drawn_iv_def drawn_salt_def randomBytes_length)

lemma envelope_fields_concat:
  assumes "length salt = saltLength" "length iv = ivLength" "length tag = tagLength"
  shows "envelope_fields (salt @ iv @ tag @ ciphertext) = (salt, iv, tag, ciphertext)"
  using assms by (simp add: envelope_fields_def slice_def)

lemma encrypt_envelope:
  assumes "crypto_contract cr"
  shows "\<exists>ciphertext tag.
           cipheriv cr algorithm
             (pbkdf2Sync cr (utf8_encode secret) (drawn_salt rng) iterations keyLength digest)
             (drawn_iv rng) (utf8_encode plain) = Some (ciphertext, tag) \<and>
           length tag = tagLength \<and>
           encrypt cr secret plain rng =
             (Inr (toString_hex (drawn_salt rng @ drawn_iv rng @ tag @ ciphertext)),
              entropy_after_encrypt rng)"
proof -
  let ?key = "pbkdf2Sync cr (utf8_encode secret) (drawn_salt rng) iterations keyLength digest"
  have "length ?key = keyLength"
    using assms by (simp add: crypto_contract_def derives_keylen_def)
  then obtain ciphertext tag where
    c: "cipheriv cr algorithm ?key (drawn_iv rng) (utf8_encode plain) = Some (ciphertext, tag)"
    using assms drawn_lengths(1) [of rng] unfolding crypto_contract_def by fastforce
  then have "length tag = tagLength"
    using assms unfolding crypto_contract_def by blast
  moreover have "encrypt cr secret plain rng =
     (Inr (toString_hex (drawn_salt rng @ drawn_iv rng @ tag @ ciphertext)), entropy_after_encrypt rng)"
    using c
    by (simp add: encrypt_def drawn_iv_def drawn_salt_def entropy_after_encrypt_def
        case_prod_beta Buffer_from_hex_toString_hex)
  ultimately show ?thesis using c by blast
qed

lemma decrypt_envelope:
  assumes "length salt = saltLength" "length iv = ivLength" "length tag = tagLength"
  shows "decrypt cr secret (toString_hex (salt @ iv @ tag @ ciphertext)) =
     (case decipheriv cr algorithm
             (pbkdf2Sync cr (utf8_encode secret) salt iterations keyLength digest) iv tag ciphertext of
        None \<Rightarrow> Inl (ApiError INTERNAL_SERVER_ERROR ''Failed to decrypt data'')
      | Some decrypted \<Rightarrow> Inr (utf8_decode decrypted))"
  by (simp add: decrypt_def Buffer_from_hex_toString_hex envelope_fields_concat [OF assms])

lemma decrypt_encrypt_toWellFormed:
  assumes "crypto_contract cr"
  shows "decrypt_encrypt cr secret plain rng = Inr (toWellFormed plain)"
proof -
  let ?key = "pbkdf2Sync cr (utf8_encode secret) (drawn_salt rng) iterations keyLength digest"
  obtain ciphertext tag where
    c: "cipheriv cr algorithm ?key (drawn_iv rng) (utf8_encode plain) = Some (ciphertext, tag)" and
    t: "length tag = tagLength" and
    e: "encrypt cr secret plain rng =
         (Inr (toString_hex (drawn_salt rng @ drawn_iv rng @ tag @ ciphertext)), entropy_after_encrypt rng)"
    using encrypt_envelope [OF assms] by blast
  have d: "decipheriv cr algorithm ?key (drawn_iv rng) tag ciphertext = Some (utf8_encode plain)"
    using assms c unfolding crypto_contract_def by blast
  show ?thesis
    by (simp add: decrypt_encrypt_def e decrypt_envelope [OF drawn_lengths(2) drawn_lengths(1) t] d
        utf8_decode_encode)
qed

lemma sample_crypto_contract: "crypto_contract sample_crypto"
proof -
  have "length (take keylen (password @ salt @ replicate keylen (0::byte))) = keylen"
    for keylen password salt
    by simp
  moreover have "map (\<lambda>b. b - k) (map (\<lambda>b. b + k) plaintext) = plaintext" for k :: byte and plaintext
    by (simp add: comp_def)
  ultimately show ?thesis
    unfolding crypto_contract_def derives_keylen_def sample_crypto_def
    by (auto simp add: keyLength_def ivLength_def tagLength_def sample_tag_def Let_def
        simp del: take_append)
qed

lemma sample_one_tag_accepted: "one_tag_accepted sample_crypto"
  by (simp add: one_tag_accepted_def sample_crypto_def)

lemma toString_hex_inject: "toString_hex a = toString_hex b \<Longrightarrow> a = b"
  by (metis Buffer_from_hex_toString_hex)


lemma Buffer_from_hex_first:
  "unhex c' = unhex c \<Longrightarrow> Buffer_from_hex (c' # rest) = Buffer_from_hex (c # rest)"
  by (cases rest) simp_all

lemma drawn_constant:
  "drawn_salt (\<lambda>i. b) = replicate saltLength b" "drawn_iv (\<lambda>i. b) = replicate ivLength b"
  by (simp_all add: drawn_salt_def drawn_iv_def randomBytes_def map_replicate_const)

subsection \<open>Round trip\<close>

text \<open>
  Claim C1, as amended. Under one secret, \<open>decrypt\<close> of the envelope \<open>encrypt\<close> returns for
  a plaintext succeeds and returns the plaintext with every unpaired surrogate replaced
  by U+FFFD (\<open>toWellFormed\<close>); it returns the plaintext itself when the plaintext has no
  unpaired surrogate.
\<close>

theorem decrypt_encrypt_roundtrip:
  assumes "crypto_contract cr"
  shows "decrypt_encrypt cr secret plain rng = Inr (toWellFormed plain) \<and>
         (isWellFormed plain \<longrightarrow> decrypt_encrypt cr secret plain rng = Inr plain)"
  using decrypt_encrypt_toWellFormed [OF assms] toWellFormed_id by simp

theorem decrypt_encrypt_roundtrip_witness:
  "decrypt_encrypt sample_crypto (js ''shared-secret'') (js ''secret-token'') (\<lambda>i. 0xAB)
     = Inr (js ''secret-token'')"
proof -
  have "isWellFormed (js ''secret-token'')"
    by (simp add: isWellFormed_def js_def is_high_surrogate_def is_low_surrogate_def)
  then show ?thesis
    using decrypt_encrypt_roundtrip [OF sample_crypto_contract] by blast
qed

text \<open>
  The claim as stated, for every string, fails at the string of the single code unit
  \<open>0xD800\<close>: the cipher is given the bytes \<open>EF BF BD\<close>, and \<open>decrypt\<close> returns U+FFFD.
\<close>

theorem lone_surrogate_not_returned:
  "decrypt_encrypt sample_crypto (js ''shared-secret'') [0xD800] (\<lambda>i. 0xAB) = Inr [0xFFFD]"
  by (simp add: decrypt_encrypt_toWellFormed [OF sample_crypto_contract] toWellFormed_def
      is_high_surrogate_def is_low_surrogate_def utf16_of_code_point_def)

subsection \<open>The layout of the envelope\<close>

text \<open>
  Claim C7. \<open>encrypt\<close> returns the hex string of the salt, the IV, the tag and the
  ciphertext in this order, of 64, 16 and 16 bytes and the ciphertext's length; the
  four slices \<open>decrypt\<close> takes of the decoded string are these four fields; and
  \<open>decrypt\<close> of this string is what the decipher returns for exactly these fields: the
  key derived from the salt \<open>encrypt\<close> drew, the IV it drew, the tag and the ciphertext
  of its cipher.
\<close>

theorem envelope_layout:
  assumes "crypto_contract cr"
  shows "\<exists>envelope ciphertext tag.
           cipheriv cr algorithm
             (pbkdf2Sync cr (utf8_encode secret) (drawn_salt rng) iterations keyLength digest)
             (drawn_iv rng) (utf8_encode plain) = Some (ciphertext, tag) \<and>
           fst (encrypt cr secret plain rng) = Inr envelope \<and>
           envelope = toString_hex (drawn_salt rng @ drawn_iv rng @ tag @ ciphertext) \<and>
           length (drawn_salt rng) = 64 \<and> length (drawn_iv rng) = 16 \<and> length tag = 16 \<and>
           envelope_fields (Buffer_from_hex envelope) = (drawn_salt rng, drawn_iv rng, tag, ciphertext) \<and>
           decrypt cr secret envelope =
             (case decipheriv cr algorithm
                     (pbkdf2Sync cr (utf8_encode secret) (drawn_salt rng) iterations keyLength digest)
                     (drawn_iv rng) tag ciphertext of
                None \<Rightarrow> Inl (ApiError INTERNAL_SERVER_ERROR ''Failed to decrypt data'')
              | Some decrypted \<Rightarrow> Inr (utf8_decode decrypted))"
proof -
  obtain ciphertext tag where
    c: "cipheriv cr algorithm
         (pbkdf2Sync cr (utf8_encode secret) (drawn_salt rng) iterations keyLength digest)
         (drawn_iv rng) (utf8_encode plain) = Some (ciphertext, tag)" and
    t: "length tag = tagLength" and
    e: "encrypt cr secret plain rng =
         (Inr (toString_hex (drawn_salt rng @ drawn_iv rng @ tag @ ciphertext)), entropy_after_encrypt rng)"
    using encrypt_envelope [OF assms] by blast
  have "envelope_fields (Buffer_from_hex (toString_hex (drawn_salt rng @ drawn_iv rng @ tag @ ciphertext)))
      = (drawn_salt rng, drawn_iv rng, tag, ciphertext)"
    by (simp add: Buffer_from_hex_toString_hex envelope_fields_concat [OF drawn_lengths(2) drawn_lengths(1) t])
  moreover have "length (drawn_salt rng) = 64" "length (drawn_iv rng) = 16" "length tag = 16"
    using drawn_lengths [of rng] t by (simp_all add: saltLength_def ivLength_def tagLength_def)
  moreover note decrypt_envelope [OF drawn_lengths(2) drawn_lengths(1) t, where cr = cr and secret = secret]
  ultimately show ?thesis using c e by simp
qed

theorem envelope_layout_witness:
  "\<exists>envelope ciphertext tag.
     cipheriv sample_crypto algorithm
       (pbkdf2Sync sample_crypto (utf8_encode (js ''s'')) (drawn_salt (\<lambda>i. 0xAB)) iterations keyLength digest)
       (drawn_iv (\<lambda>i. 0xAB)) (utf8_encode (js ''hi'')) = Some (ciphertext, tag) \<and>
     fst (encrypt sample_crypto (js ''s'') (js ''hi'') (\<lambda>i. 0xAB)) = Inr envelope \<and>
     envelope = toString_hex (drawn_salt (\<lambda>i. 0xAB) @ drawn_iv (\<lambda>i. 0xAB) @ tag @ ciphertext) \<and>
     length (drawn_salt (\<lambda>i. 0xAB)) = 64 \<and> length (drawn_iv (\<lambda>i. 0xAB)) = 16 \<and> length tag = 16 \<and>
     envelope_fields (Buffer_from_hex envelope) = (drawn_salt (\<lambda>i. 0xAB), drawn_iv (\<lambda>i. 0xAB), tag, ciphertext) \<and>
     decrypt sample_crypto (js ''s'') envelope =
       (case decipheriv sample_crypto algorithm
               (pbkdf2Sync sample_crypto (utf8_encode (js ''s'')) (drawn_salt (\<lambda>i. 0xAB)) iterations keyLength digest)
               (drawn_iv (\<lambda>i. 0xAB)) tag ciphertext of
          None \<Rightarrow> Inl (ApiError INTERNAL_SERVER_ERROR ''Failed to decrypt data'')
        | Some decrypted \<Rightarrow> Inr (utf8_decode decrypted))"
  by (rule envelope_layout [OF sample_crypto_contract])

subsection \<open>Altered envelopes\<close>

lemma decrypt_of_encrypt:
  assumes "crypto_contract cr" "fst (encrypt cr secret plain rng) = Inr envelope"
  shows "decrypt cr secret envelope = Inr (toWellFormed plain)"
  using decrypt_encrypt_toWellFormed [OF assms(1), of secret plain rng] assms(2)
  by (simp add: decrypt_encrypt_def)

lemma decrypt_decoded:
  assumes "Buffer_from_hex envelope = salt @ iv @ tag @ ciphertext"
    "length salt = saltLength" "length iv = ivLength" "length tag = tagLength"
  shows "decrypt cr secret envelope =
     (case decipheriv cr algorithm
             (pbkdf2Sync cr (utf8_encode secret) salt iterations keyLength digest) iv tag ciphertext of
        None \<Rightarrow> Inl (ApiError INTERNAL_SERVER_ERROR ''Failed to decrypt data'')
      | Some decrypted \<Rightarrow> Inr (utf8_decode decrypted))"
  by (simp add: decrypt_def assms(1) Buffer_from_hex_toString_hex envelope_fields_concat [OF assms(2-4)])

lemma update_third_field:
  assumes "length a + length b \<le> j" "j < length a + length b + length t"
  shows "(a @ b @ t @ c)[j := x] = a @ b @ t[j - (length a + length b) := x] @ c"
    and "(a @ b @ t @ c) ! j = t ! (j - (length a + length b))"
  using assms by (auto simp add: list_update_append nth_append)


text \<open>
  For a changed digit in the tag field the exact property of GCM is enough: the cipher
  accepts one 16-byte tag for a key, an IV and a ciphertext.
\<close>

lemma changed_tag_digit_rejected:
  assumes "crypto_contract cr" "one_tag_accepted cr"
    and "fst (encrypt cr secret plain rng) = Inr envelope"
    and a: "2 * (saltLength + ivLength) \<le> i \<and> i < 2 * (saltLength + ivLength + tagLength) \<and>
          unhex c \<noteq> None \<and> unhex c \<noteq> unhex (envelope ! i)"
  shows "decrypt cr secret (envelope[i := c]) =
           Inl (ApiError INTERNAL_SERVER_ERROR ''Failed to decrypt data'')"
proof -
  let ?salt = "drawn_salt rng" and ?iv = "drawn_iv rng"
  let ?key = "pbkdf2Sync cr (utf8_encode secret) ?salt iterations keyLength digest"
  obtain ciphertext tag where
    c: "cipheriv cr algorithm ?key ?iv (utf8_encode plain) = Some (ciphertext, tag)" and
    t: "length tag = tagLength" and
    e: "encrypt cr secret plain rng =
         (Inr (toString_hex (?salt @ ?iv @ tag @ ciphertext)), entropy_after_encrypt rng)"
    using encrypt_envelope [OF assms(1)] by blast
  let ?buf = "?salt @ ?iv @ tag @ ciphertext"
  have env: "envelope = toString_hex ?buf"
    using assms(3) e by simp
  obtain v where v: "unhex c = Some v"
    using a by auto
  have i: "i < 2 * length ?buf"
    using a t drawn_lengths [of rng] by simp
  have j: "saltLength + ivLength \<le> i div 2" "i div 2 < saltLength + ivLength + tagLength"
    using a by auto
  define tag' where "tag' = tag[i div 2 - (saltLength + ivLength) := put_digit i v (?buf ! (i div 2))]"
  have "Buffer_from_hex (envelope[i := c]) = ?buf[i div 2 := put_digit i v (?buf ! (i div 2))]"
    unfolding env using i v by (rule Buffer_from_hex_update)
  then have dec: "Buffer_from_hex (envelope[i := c]) = ?salt @ ?iv @ tag' @ ciphertext"
    unfolding tag'_def using update_third_field(1) [of ?salt ?iv "i div 2" tag] j t
    by (simp add: drawn_lengths)
  have "unhex c \<noteq> unhex (toString_hex ?buf ! i)"
    using a env by simp
  then have "put_digit i v (?buf ! (i div 2)) \<noteq> ?buf ! (i div 2)"
    by (rule put_digit_changes [OF i v])
  moreover have "?buf ! (i div 2) = tag ! (i div 2 - (saltLength + ivLength))"
    using update_third_field(2) [of ?salt ?iv "i div 2" tag] j t
    by (simp add: drawn_lengths)
  ultimately have "tag' ! (i div 2 - (saltLength + ivLength)) \<noteq> tag ! (i div 2 - (saltLength + ivLength))"
    unfolding tag'_def using j t by simp
  then have ne: "tag' \<noteq> tag" by auto
  have t': "length tag' = tagLength"
    using t by (simp add: tag'_def)
  have "decipheriv cr algorithm ?key ?iv tag ciphertext \<noteq> None"
    using assms(1) c unfolding crypto_contract_def by fastforce
  then have "decipheriv cr algorithm ?key ?iv tag' ciphertext = None"
    using assms(2) t t' ne unfolding one_tag_accepted_def by blast
  then show ?thesis
    using decrypt_decoded [OF dec drawn_lengths(2) drawn_lengths(1) t'] by simp
qed

lemma sample_key: "pbkdf2Sync sample_crypto (utf8_encode (js ''s'')) (drawn_salt (\<lambda>i. 0xAB)) iterations keyLength digest
   = 0x73 # replicate 31 0xAB"
  by (simp add: sample_crypto_def drawn_constant saltLength_def keyLength_def utf8_encode_def js_def
      utf8_of_code_point_def is_high_surrogate_def is_low_surrogate_def)

lemma sample_pad_value: "sample_pad (0x73 # replicate 31 0xAB) (replicate 16 0xAB) = 0xD8"
  by (simp add: sample_pad_def sum_list_replicate)







lemma fields_cut_tag:
  assumes "length salt = saltLength" "length iv = ivLength" "length tag = tagLength"
    "saltLength + ivLength \<le> n"
  shows "envelope_fields (take n (salt @ iv @ tag)) = (salt, iv, take (n - (saltLength + ivLength)) tag, [])"
  using assms by (simp add: envelope_fields_def slice_def min_def)







lemma length_checksums: "length (checksums x) = 16"
  by (simp add: checksums_def)
















lemma short_tag_crypto_contract: "crypto_contract short_tag_crypto"
proof -
  have "length (take keylen (password @ salt @ replicate keylen (0::byte))) = keylen"
    for keylen password salt
    by simp
  moreover have "map (\<lambda>b. b - k) (map (\<lambda>b. b + k) plaintext) = plaintext" for k :: byte and plaintext
    by (simp add: comp_def)
  ultimately show ?thesis
    unfolding crypto_contract_def derives_keylen_def short_tag_crypto_def sample_crypto_def
    by (auto simp add: keyLength_def ivLength_def tagLength_def sample_tag_def Let_def
        valid_tag_length_def simp del: take_append)
qed

lemma short_tag_key:
  "pbkdf2Sync short_tag_crypto (utf8_encode (js ''s'')) (drawn_salt (\<lambda>i. 0xAB)) iterations keyLength digest
   = 0x73 # replicate 31 0xAB"
  using sample_key by (simp add: short_tag_crypto_def)

lemma short_tag_cipher_empty:
  "cipheriv short_tag_crypto algorithm
     (pbkdf2Sync short_tag_crypto (utf8_encode (js ''s'')) (drawn_salt (\<lambda>i. 0xAB)) iterations keyLength digest)
     (drawn_iv (\<lambda>i. 0xAB)) (utf8_encode [])
   = Some ([], map (\<lambda>j. of_nat j + 0xD8) [0..<16])"
  unfolding short_tag_key
  unfolding drawn_constant ivLength_def
  by (simp add: short_tag_crypto_def sample_crypto_def sample_pad_value sample_tag_def utf8_encode_def)

lemma short_tag_envelope:
  "encrypt short_tag_crypto (js ''s'') [] (\<lambda>i. 0xAB) =
     (Inr (toString_hex (replicate 64 0xAB @ replicate 16 0xAB @ map (\<lambda>j. of_nat j + 0xD8) [0..<16])),
      entropy_after_encrypt (\<lambda>i. 0xAB))"
  using encrypt_envelope [OF short_tag_crypto_contract, of "js ''s''" "\<lambda>i. 0xAB" "[]"]
  unfolding short_tag_cipher_empty
  by (simp add: drawn_constant saltLength_def ivLength_def)

text \<open>
  The case \<open>detects_truncation\<close> leaves out, on the instance with GCM's short tags: the
  envelope of the empty plaintext has no ciphertext, and with its last character
  overwritten by \<open>z\<close> the tag is cut to 15 bytes, which the decipher accepts. \<open>decrypt\<close>
  returns the empty plaintext.
\<close>

lemma cut_tag_accepted:
  "fst (encrypt short_tag_crypto (js ''s'') [] (\<lambda>i. 0xAB)) =
     Inr (toString_hex (replicate 64 0xAB @ replicate 16 0xAB @ map (\<lambda>j. of_nat j + 0xD8) [0..<16])) \<and>
   decrypt short_tag_crypto (js ''s'')
     ((toString_hex (replicate 64 0xAB @ replicate 16 0xAB @
         map (\<lambda>j. of_nat j + 0xD8) [0..<16]))[191 := 0x7A]) = Inr []"
proof -
  let ?salt = "replicate 64 (0xAB :: byte)" and ?iv = "replicate 16 (0xAB :: byte)"
  let ?tag = "map (\<lambda>j. of_nat j + 0xD8) [0..<16] :: buffer"
  have l: "length ?salt = saltLength" "length ?iv = ivLength" "length ?tag = tagLength"
    by (simp_all add: saltLength_def ivLength_def tagLength_def)
  have "Buffer_from_hex ((toString_hex (?salt @ ?iv @ ?tag))[191 := 0x7A]) = take (191 div 2) (?salt @ ?iv @ ?tag)"
    by (rule Buffer_from_hex_cut) (simp_all add: unhex_def)
  then have "envelope_fields (Buffer_from_hex ((toString_hex (?salt @ ?iv @ ?tag))[191 := 0x7A])) =
      (?salt, ?iv, take (191 div 2 - (saltLength + ivLength)) ?tag, [])"
    using fields_cut_tag [OF l, of "191 div 2"] by (simp add: saltLength_def ivLength_def)
  then have f: "envelope_fields (Buffer_from_hex ((toString_hex (?salt @ ?iv @ ?tag))[191 := 0x7A])) =
      (?salt, ?iv, take 15 ?tag, [])"
    by (simp add: saltLength_def ivLength_def)
  have k: "pbkdf2Sync short_tag_crypto (utf8_encode (js ''s'')) ?salt iterations keyLength digest
      = 0x73 # replicate 31 0xAB"
    using short_tag_key by (simp add: drawn_constant saltLength_def)
  have "decipheriv short_tag_crypto algorithm (0x73 # replicate 31 0xAB) ?iv (take 15 ?tag) [] = Some []"
    by (simp add: short_tag_crypto_def sample_tag_def sample_pad_value valid_tag_length_def)
  then have "decrypt short_tag_crypto (js ''s'') ((toString_hex (?salt @ ?iv @ ?tag))[191 := 0x7A]) = Inr []"
    unfolding decrypt_def f Let_def prod.case k
    by (simp add: toString_hex_def utf8_decode_def)
  then show ?thesis
    by (simp add: short_tag_envelope)
qed

subsection \<open>\<open>verifyHash\<close> on the output of \<open>hash\<close>\<close>

lemma verifyHash_of_hash:
  assumes "derives_keylen cr"
  shows "verifyHash cr d (fst (hash cr d2 rng)) =
     Inr (pbkdf2Sync cr (utf8_encode d) (fst (randomBytes saltLength rng)) iterations keyLength digest =
          pbkdf2Sync cr (utf8_encode d2) (fst (randomBytes saltLength rng)) iterations keyLength digest)"
proof -
  define salt where "salt = fst (randomBytes saltLength rng)"
  define h1 where "h1 = pbkdf2Sync cr (utf8_encode d) salt iterations keyLength digest"
  define h2 where "h2 = pbkdf2Sync cr (utf8_encode d2) salt iterations keyLength digest"
  have h: "fst (hash cr d2 rng) = toString_hex (salt @ h2)"
    by (simp add: hash_def case_prod_beta salt_def h2_def)
  have "length salt = saltLength"
    by (simp add: salt_def randomBytes_length)
  then have s: "slice 0 saltLength (salt @ h2) = salt" "drop saltLength (salt @ h2) = h2"
    by (simp_all add: slice_def)
  have "length h1 = length h2"
    using assms by (simp add: derives_keylen_def h1_def h2_def)
  then have "timingSafeEqual h1 h2 = Some (h1 = h2)"
    by (simp add: timingSafeEqual_def)
  then have "verifyHash cr d (toString_hex (salt @ h2)) = Inr (h1 = h2)"
    by (simp only: verifyHash_def Let_def Buffer_from_hex_toString_hex s h1_def [symmetric] option.case)
  then show ?thesis
    by (simp only: h h1_def h2_def salt_def)
qed

lemma sample_derives_keylen: "derives_keylen sample_crypto"
  using sample_crypto_contract by (simp add: crypto_contract_def)

text \<open>
  Claim C8, as amended. \<open>verifyHash\<close> of a string and the hash of the same string returns
  true. \<open>verifyHash\<close> of a string \<open>d\<close> and the hash of a string \<open>d2\<close> returns false when
  the keys PBKDF2 derives from the two strings under the hash's salt differ; it returns
  true when they are equal, as they are for two strings with the same UTF-8 encoding.
\<close>

theorem verifyHash_correct:
  assumes "derives_keylen cr"
  shows "verifyHash cr d (fst (hash cr d rng)) = Inr True \<and>
         (pbkdf2Sync cr (utf8_encode d) (fst (randomBytes saltLength rng)) iterations keyLength digest \<noteq>
          pbkdf2Sync cr (utf8_encode d2) (fst (randomBytes saltLength rng)) iterations keyLength digest
          \<longrightarrow> verifyHash cr d (fst (hash cr d2 rng)) = Inr False) \<and>
         (pbkdf2Sync cr (utf8_encode d) (fst (randomBytes saltLength rng)) iterations keyLength digest =
          pbkdf2Sync cr (utf8_encode d2) (fst (randomBytes saltLength rng)) iterations keyLength digest
          \<longrightarrow> verifyHash cr d (fst (hash cr d2 rng)) = Inr True)"
  by (simp add: verifyHash_of_hash [OF assms])

theorem verifyHash_correct_witness:
  "verifyHash sample_crypto (js ''a'') (fst (hash sample_crypto (js ''a'') (\<lambda>i. 0xAB))) = Inr True \<and>
   verifyHash sample_crypto (js ''a'') (fst (hash sample_crypto (js ''b'') (\<lambda>i. 0xAB))) = Inr False \<and>
   verifyHash sample_crypto [0xDBFF] (fst (hash sample_crypto [0xDFFF] (\<lambda>i. 0xAB))) = Inr True"
proof -
  have "utf8_encode [0xDBFF] = utf8_encode [0xDFFF]"
    by (simp add: utf8_encode_def is_high_surrogate_def is_low_surrogate_def)
  then have same:
    "pbkdf2Sync sample_crypto (utf8_encode [0xDBFF]) (fst (randomBytes saltLength (\<lambda>i. 0xAB))) iterations keyLength digest =
     pbkdf2Sync sample_crypto (utf8_encode [0xDFFF]) (fst (randomBytes saltLength (\<lambda>i. 0xAB))) iterations keyLength digest"
    by simp
  have "pbkdf2Sync sample_crypto (utf8_encode (js ''a'')) (fst (randomBytes saltLength (\<lambda>i. 0xAB))) iterations keyLength digest \<noteq>
        pbkdf2Sync sample_crypto (utf8_encode (js ''b'')) (fst (randomBytes saltLength (\<lambda>i. 0xAB))) iterations keyLength digest"
    by (simp add: sample_crypto_def utf8_encode_def js_def utf8_of_code_point_def
        is_high_surrogate_def is_low_surrogate_def keyLength_def)
  then show ?thesis
    using verifyHash_correct [OF sample_derives_keylen, of "js ''a''" "\<lambda>i. 0xAB" "js ''b''"]
      verifyHash_correct [OF sample_derives_keylen, of "[0xDBFF]" "\<lambda>i. 0xAB" "[0xDFFF]"] same
    by blast
qed

text \<open>
  The condition on the derived keys cannot be replaced by one on the strings or their
  bytes: there are more byte strings than keys of 32 bytes, so under every salt two
  strings with different UTF-8 encodings have the same derived key.
\<close>

lemma utf8_encode_ascii: "utf8_encode (replicate n 0x61) = replicate n 0x61"
proof -
  have "code_points (replicate n 97) = replicate n 97"
  proof (induction n rule: less_induct)
    case (less n)
    show ?case
    proof (cases n)
      case 0
      then show ?thesis by simp
    next
      case (Suc m)
      show ?thesis
      proof (cases m)
        case 0
        with Suc show ?thesis by (simp add: is_high_surrogate_def is_low_surrogate_def)
      next
        case (Suc k)
        have "code_points (replicate m 97) = replicate m 97"
          using less \<open>n = Suc m\<close> by simp
        then show ?thesis
          using Suc \<open>n = Suc m\<close> by (simp add: is_high_surrogate_def is_low_surrogate_def)
      qed
    qed
  qed
  then show ?thesis
    by (simp add: utf8_encode_def utf8_of_code_point_def map_replicate_const)
qed

lemma derived_keys_collide:
  assumes "derives_keylen cr"
  shows "\<exists>d d2. utf8_encode d \<noteq> utf8_encode d2 \<and>
           pbkdf2Sync cr (utf8_encode d) salt iterations keyLength digest =
           pbkdf2Sync cr (utf8_encode d2) salt iterations keyLength digest"
proof -
  let ?f = "\<lambda>n. pbkdf2Sync cr (utf8_encode (replicate n 0x61)) salt iterations keyLength digest"
  have "range ?f \<subseteq> {bs. set bs \<subseteq> UNIV \<and> length bs = keyLength}"
    using assms by (auto simp add: derives_keylen_def)
  moreover have "finite {bs :: buffer. set bs \<subseteq> UNIV \<and> length bs = keyLength}"
    by (rule finite_lists_length_eq) simp
  ultimately have "finite (range ?f)"
    by (rule finite_subset)
  then have "\<not> inj ?f"
    using finite_imageD infinite_UNIV_nat by blast
  then obtain m n where mn: "m \<noteq> n" "?f m = ?f n"
    unfolding inj_on_def by blast
  have "utf8_encode (replicate m 0x61) \<noteq> utf8_encode (replicate n 0x61)"
  proof
    assume "utf8_encode (replicate m 0x61) = utf8_encode (replicate n 0x61)"
    then have "length (replicate m (0x61 :: byte)) = length (replicate n (0x61 :: byte))"
      by (simp only: utf8_encode_ascii)
    then show False using mn(1) by simp
  qed
  then show ?thesis using mn(2) by blast
qed

text \<open>
  The claim as stated, false for every two distinct strings, fails at the strings of
  the single code units \<open>0xD800\<close> and \<open>0xDC00\<close>: both are hashed as the bytes
  \<open>EF BF BD\<close>, and \<open>verifyHash\<close> of the one and the hash of the other returns true.
\<close>

theorem distinct_strings_same_hash:
  "verifyHash sample_crypto [0xD800] (fst (hash sample_crypto [0xDC00] (\<lambda>i. 0xAB))) = Inr True"
proof -
  have "utf8_encode [0xD800] = utf8_encode [0xDC00]"
    by (simp add: utf8_encode_def is_high_surrogate_def is_low_surrogate_def)
  then show ?thesis
    by (simp add: verifyHash_of_hash [OF sample_derives_keylen])
qed

subsection \<open>Two calls of \<open>encrypt\<close>\<close>

text \<open>
  Claim C9, as amended. Two calls of \<open>encrypt\<close> in a row, on one plaintext under one
  secret, both succeed; when the salt and IV the second call draws are not both the ones
  the first call drew, the two envelopes differ; and \<open>decrypt\<close> returns for each the
  plaintext with every unpaired surrogate replaced by U+FFFD, which is the plaintext when
  it has no unpaired surrogate.
\<close>

theorem fresh_draws_distinct_envelopes:
  assumes "crypto_contract cr"
    and "(drawn_salt rng, drawn_iv rng) \<noteq>
         (drawn_salt (entropy_after_encrypt rng), drawn_iv (entropy_after_encrypt rng))"
  shows "\<exists>e1 e2.
           encrypt cr secret plain rng = (Inr e1, entropy_after_encrypt rng) \<and>
           fst (encrypt cr secret plain (entropy_after_encrypt rng)) = Inr e2 \<and>
           e1 \<noteq> e2 \<and>
           decrypt cr secret e1 = Inr (toWellFormed plain) \<and>
           decrypt cr secret e2 = Inr (toWellFormed plain) \<and>
           (isWellFormed plain \<longrightarrow> toWellFormed plain = plain)"
proof -
  let ?rng' = "entropy_after_encrypt rng"
  obtain c1 t1 where
    t1: "length t1 = tagLength" and
    e1: "encrypt cr secret plain rng =
         (Inr (toString_hex (drawn_salt rng @ drawn_iv rng @ t1 @ c1)), ?rng')"
    using encrypt_envelope [OF assms(1), of secret rng plain] by blast
  obtain c2 t2 where
    t2: "length t2 = tagLength" and
    e2: "encrypt cr secret plain ?rng' =
         (Inr (toString_hex (drawn_salt ?rng' @ drawn_iv ?rng' @ t2 @ c2)), entropy_after_encrypt ?rng')"
    using encrypt_envelope [OF assms(1), of secret ?rng' plain] by blast
  have "toString_hex (drawn_salt rng @ drawn_iv rng @ t1 @ c1) \<noteq>
        toString_hex (drawn_salt ?rng' @ drawn_iv ?rng' @ t2 @ c2)"
  proof
    assume "toString_hex (drawn_salt rng @ drawn_iv rng @ t1 @ c1) =
            toString_hex (drawn_salt ?rng' @ drawn_iv ?rng' @ t2 @ c2)"
    then have "drawn_salt rng @ drawn_iv rng @ t1 @ c1 = drawn_salt ?rng' @ drawn_iv ?rng' @ t2 @ c2"
      by (rule toString_hex_inject)
    then have "drawn_salt rng = drawn_salt ?rng' \<and> drawn_iv rng = drawn_iv ?rng'"
      using drawn_lengths [of rng] drawn_lengths [of ?rng'] by simp
    then show False using assms(2) by simp
  qed
  moreover have "decrypt cr secret (toString_hex (drawn_salt rng @ drawn_iv rng @ t1 @ c1)) = Inr (toWellFormed plain)"
    using e1 by (intro decrypt_of_encrypt [OF assms(1), of secret plain rng]) simp
  moreover have "decrypt cr secret (toString_hex (drawn_salt ?rng' @ drawn_iv ?rng' @ t2 @ c2)) = Inr (toWellFormed plain)"
    using e2 by (intro decrypt_of_encrypt [OF assms(1), of secret plain ?rng']) simp
  ultimately show ?thesis
    using e1 e2 toWellFormed_id by auto
qed

lemma drawn_of_nat:
  "drawn_iv (\<lambda>i. of_nat i) ! 0 = 0"
  "drawn_iv (entropy_after_encrypt (\<lambda>i. of_nat i)) ! 0 = 80"
  by (simp_all add: drawn_iv_def entropy_after_encrypt_def randomBytes_def ivLength_def saltLength_def)

theorem fresh_draws_distinct_envelopes_witness:
  "\<exists>e1 e2.
     encrypt sample_crypto (js ''s'') (js ''hi'') (\<lambda>i. of_nat i)
       = (Inr e1, entropy_after_encrypt (\<lambda>i. of_nat i)) \<and>
     fst (encrypt sample_crypto (js ''s'') (js ''hi'') (entropy_after_encrypt (\<lambda>i. of_nat i))) = Inr e2 \<and>
     e1 \<noteq> e2 \<and>
     decrypt sample_crypto (js ''s'') e1 = Inr (js ''hi'') \<and>
     decrypt sample_crypto (js ''s'') e2 = Inr (js ''hi'')"
proof -
  have "drawn_iv (\<lambda>i. of_nat i) \<noteq> drawn_iv (entropy_after_encrypt (\<lambda>i. of_nat i))"
  proof
    assume "drawn_iv (\<lambda>i. of_nat i) = drawn_iv (entropy_after_encrypt (\<lambda>i. of_nat i))"
    then have "drawn_iv (\<lambda>i. of_nat i) ! 0 = drawn_iv (entropy_after_encrypt (\<lambda>i. of_nat i)) ! 0"
      by simp
    then show False by (simp add: drawn_of_nat)
  qed
  moreover have "isWellFormed (js ''hi'')"
    by (simp add: isWellFormed_def js_def is_high_surrogate_def is_low_surrogate_def)
  ultimately show ?thesis
    using fresh_draws_distinct_envelopes [OF sample_crypto_contract, of "\<lambda>i. of_nat i" "js ''s''" "js ''hi''"]
    by auto
qed

text \<open>
  The claim as stated, that both envelopes decrypt to the plaintext, fails at the string
  of the single code unit \<open>0xDC00\<close>: the second call runs on the entropy the first one
  leaves, and both envelopes decrypt to U+FFFD.
\<close>

theorem second_envelope_lone_surrogate:
  "snd (encrypt sample_crypto (js ''s'') [0xDC00] (\<lambda>i. of_nat i)) = entropy_after_encrypt (\<lambda>i. of_nat i) \<and>
   decrypt_encrypt sample_crypto (js ''s'') [0xDC00] (\<lambda>i. of_nat i) = Inr [0xFFFD] \<and>
   decrypt_encrypt sample_crypto (js ''s'') [0xDC00] (entropy_after_encrypt (\<lambda>i. of_nat i)) = Inr [0xFFFD]"
proof -
  have "toWellFormed [0xDC00] = [0xFFFD]"
    by (simp add: toWellFormed_def is_high_surrogate_def is_low_surrogate_def utf16_of_code_point_def)
  moreover have "snd (encrypt sample_crypto (js ''s'') [0xDC00] (\<lambda>i. of_nat i)) = entropy_after_encrypt (\<lambda>i. of_nat i)"
    using encrypt_envelope [OF sample_crypto_contract, of "js ''s''" "\<lambda>i. of_nat i" "[0xDC00]"] by auto
  ultimately show ?thesis
    by (simp add: decrypt_encrypt_toWellFormed [OF sample_crypto_contract])
qed

section \<open>Properties of the OpenPGP service\<close>

lemma await_Inr: "await (Inr v) k = k v"
  by (simp add: await_def)

lemma await_Inl: "await (Inl e) k = Inl e"
  by (simp add: await_def)

lemma await_eq_Inr: "await p k = Inr r \<longleftrightarrow> (\<exists>v. p = Inr v \<and> k v = Inr r)"
  by (cases p) (simp_all add: await_def)

lemmas sample_defs = sample_openpgp_def sample_readKey_def sample_readPrivateKey_def
  sample_decryptKey_def sample_encrypt_def sample_readMessage_def sample_decrypt_def
  sample_readMessage_binary_def sample_decrypt_binary_def sample_signatures_def

subsection \<open>Round trip of a message\<close>

lemma crlf_to_lf_id: "\<not> has_crlf s \<Longrightarrow> crlf_to_lf s = s"
  by (induction s rule: has_crlf.induct) auto

lemma text_literal_id:
  assumes "isWellFormed s" "\<not> has_crlf s" "\<not> starts_with_bom s"
  shows "text_literal s = s"
  using assms
  by (simp add: text_literal_def toWellFormed_id crlf_to_lf_id strip_bom_def starts_with_bom_def
      split: list.splits)

text \<open>
  Claim C2, as amended. For every plaintext and every valid key pair with its passphrase,
  \<open>encryptMessage\<close> to the public key succeeds, and \<open>decryptMessage\<close> of its result with
  the private key and the passphrase succeeds; its \<open>message\<close> is the plaintext as the
  library's literal data packet carries it, which is the plaintext itself when it has no
  unpaired surrogate, no CR LF and no leading U+FEFF.
\<close>

theorem message_roundtrip:
  assumes "valid_key_pair pgp pub priv passphrase"
  shows "\<exists>armored r.
           encryptMessage pgp plain pub None None = Inr armored \<and>
           decryptMessage pgp armored priv passphrase None = Inr r \<and>
           message r = text_literal plain \<and>
           (isWellFormed plain \<and> \<not> has_crlf plain \<and> \<not> starts_with_bom plain \<longrightarrow>
              message r = plain)"
proof -
  obtain publicKey locked privateKey where
    k: "readKey pgp pub = Inr publicKey" "readPrivateKey pgp priv = Inr locked"
      "decryptKey pgp locked passphrase = Inr privateKey" and
    a: "\<forall>text. \<exists>armored msg r.
           openpgp_encrypt pgp (createMessage pgp text) publicKey None = Inr armored \<and>
           readMessage pgp armored = Inr msg \<and>
           openpgp_decrypt pgp msg privateKey None = Inr r \<and>
           data r = text_literal text"
    using assms unfolding valid_key_pair_def by blast
  obtain armored msg r where
    m: "openpgp_encrypt pgp (createMessage pgp plain) publicKey None = Inr armored"
      "readMessage pgp armored = Inr msg"
      "openpgp_decrypt pgp msg privateKey None = Inr r" "data r = text_literal plain"
    using a by blast
  have "encryptMessage pgp plain pub None None = Inr armored"
    by (simp add: encryptMessage_def encryptMessage_try_def k m await_Inr)
  moreover have "decryptMessage pgp armored priv passphrase None =
      Inr \<lparr> verified = first_signature_verified (signatures r), message = text_literal plain \<rparr>"
    by (simp add: decryptMessage_def decryptMessage_try_def k m await_Inr)
  ultimately show ?thesis using text_literal_id [of plain] by simp
qed

lemma text_valid_key_pair:
  "valid_key_pair text_openpgp [0x50, 0x41] (0x53 # 0x41 # js ''correct-horse'')
     (js ''correct-horse'')"
  unfolding valid_key_pair_def
  by (simp add: text_openpgp_def sample_openpgp_def sample_readKey_def sample_readPrivateKey_def
      sample_decryptKey_def sample_encrypt_def sample_readMessage_def sample_decrypt_def)

lemma plain_hello:
  "isWellFormed (js ''hello'') \<and> \<not> has_crlf (js ''hello'') \<and> \<not> starts_with_bom (js ''hello'')"
  by (simp add: isWellFormed_def js_def is_high_surrogate_def is_low_surrogate_def
      starts_with_bom_def)

theorem message_roundtrip_witness:
  "\<exists>armored r.
     encryptMessage text_openpgp (js ''hello'') [0x50, 0x41] None None = Inr armored \<and>
     decryptMessage text_openpgp armored (0x53 # 0x41 # js ''correct-horse'') (js ''correct-horse'') None
       = Inr r \<and>
     message r = js ''hello''"
  using message_roundtrip [OF text_valid_key_pair, of "js ''hello''"] plain_hello by blast

lemma text_literal_crlf: "text_literal [0x61, 0x0D, 0x0A, 0x62] = [0x61, 0x0A, 0x62]"
proof -
  have "isWellFormed [0x61, 0x0D, 0x0A, 0x62]"
    by (simp add: isWellFormed_def is_high_surrogate_def is_low_surrogate_def)
  then show ?thesis
    by (simp add: text_literal_def toWellFormed_id strip_bom_def)
qed

lemma text_literal_surrogate: "text_literal [0xD800] = [0xFFFD]"
  by (simp add: text_literal_def toWellFormed_def is_high_surrogate_def is_low_surrogate_def
      utf16_of_code_point_def strip_bom_def)

lemma text_literal_bom: "text_literal [0xFEFF, 0x61] = [0x61]"
proof -
  have "isWellFormed [0xFEFF, 0x61]"
    by (simp add: isWellFormed_def is_high_surrogate_def is_low_surrogate_def)
  then show ?thesis
    by (simp add: text_literal_def toWellFormed_id strip_bom_def)
qed

lemma text_openpgp_roundtrip:
  "encryptMessage text_openpgp text [0x50, 0x41] None None = Inr (0x4D # 0x41 # 0 # text_literal text) \<and>
   decryptMessage text_openpgp (0x4D # 0x41 # 0 # text_literal text)
     (0x53 # 0x41 # js ''correct-horse'') (js ''correct-horse'') None
     = Inr \<lparr> verified = False, message = text_literal text \<rparr>"
  by (simp add: encryptMessage_def encryptMessage_try_def decryptMessage_def decryptMessage_try_def
      await_def text_openpgp_def sample_defs first_signature_verified_def)

text \<open>
  The claim as stated, for every plaintext, fails at the text \<open>a\<close>, CR, LF, \<open>b\<close>: under a
  valid key pair \<open>decryptMessage\<close> returns \<open>a\<close>, LF, \<open>b\<close>. It fails as well at the single
  code unit \<open>0xD800\<close>, returned as U+FFFD, and at U+FEFF followed by \<open>a\<close>, returned as \<open>a\<close>.
\<close>

theorem crlf_surrogate_bom_not_returned:
  "valid_key_pair text_openpgp [0x50, 0x41] (0x53 # 0x41 # js ''correct-horse'') (js ''correct-horse'') \<and>
   encryptMessage text_openpgp [0x61, 0x0D, 0x0A, 0x62] [0x50, 0x41] None None =
     Inr [0x4D, 0x41, 0, 0x61, 0x0A, 0x62] \<and>
   decryptMessage text_openpgp [0x4D, 0x41, 0, 0x61, 0x0A, 0x62]
     (0x53 # 0x41 # js ''correct-horse'') (js ''correct-horse'') None
     = Inr \<lparr> verified = False, message = [0x61, 0x0A, 0x62] \<rparr> \<and>
   encryptMessage text_openpgp [0xD800] [0x50, 0x41] None None = Inr [0x4D, 0x41, 0, 0xFFFD] \<and>
   decryptMessage text_openpgp [0x4D, 0x41, 0, 0xFFFD]
     (0x53 # 0x41 # js ''correct-horse'') (js ''correct-horse'') None
     = Inr \<lparr> verified = False, message = [0xFFFD] \<rparr> \<and>
   encryptMessage text_openpgp [0xFEFF, 0x61] [0x50, 0x41] None None = Inr [0x4D, 0x41, 0, 0x61] \<and>
   decryptMessage text_openpgp [0x4D, 0x41, 0, 0x61]
     (0x53 # 0x41 # js ''correct-horse'') (js ''correct-horse'') None
     = Inr \<lparr> verified = False, message = [0x61] \<rparr>"
  using text_openpgp_roundtrip [of "[0x61, 0x0D, 0x0A, 0x62]"]
    text_openpgp_roundtrip [of "[0xD800]"] text_openpgp_roundtrip [of "[0xFEFF, 0x61]"]
    text_valid_key_pair
  by (simp add: text_literal_crlf text_literal_surrogate text_literal_bom)

subsection \<open>Signing in \<open>encryptMessage\<close>\<close>

lemma encryptMessage_unlock_fails:
  assumes "sk \<noteq> []" "pp \<noteq> []" "\<not> unlocks pgp sk pp"
  shows "encryptMessage pgp plain pub (Some sk) (Some pp) = Inl (Error ''Kunne ikke kryptere beskeden'')"
proof (cases "readKey pgp pub")
  case (Inl e)
  then show ?thesis
    by (simp add: encryptMessage_def encryptMessage_try_def await_Inl)
next
  case (Inr publicKey)
  show ?thesis
  proof (cases "readPrivateKey pgp sk")
    case (Inl e)
    then show ?thesis
      using Inr assms by (simp add: encryptMessage_def encryptMessage_try_def await_Inl await_Inr)
  next
    case locked: (Inr locked)
    then obtain e where "decryptKey pgp locked pp = Inl e"
      using assms(3) by (cases "decryptKey pgp locked pp") (simp_all add: unlocks_def)
    then show ?thesis
      using Inr locked assms by (simp add: encryptMessage_def encryptMessage_try_def await_Inl await_Inr)
  qed
qed

lemma encryptMessage_no_passphrase:
  assumes "\<not> truthy passphrase"
  shows "encryptMessage pgp plain pub senderPrivateKey passphrase = encryptMessage pgp plain pub None None"
proof -
  have "encryptMessage_try pgp plain pub senderPrivateKey passphrase =
        encryptMessage_try pgp plain pub None None"
    using assms
    by (cases senderPrivateKey; cases passphrase) (simp_all add: encryptMessage_try_def truthy_def)
  then show ?thesis by (simp add: encryptMessage_def)
qed

text \<open>
  Claim C3, as amended. With a sender's private key and a passphrase, both not empty, a
  key that does not parse or a passphrase that does not unlock it makes \<open>encryptMessage\<close>
  fail with its error. With no passphrase, or an empty one, \<open>encryptMessage\<close> does not
  sign: it returns what it returns when no sender's key is given.
\<close>

theorem signing_needs_key_and_passphrase:
  "(sk \<noteq> [] \<and> pp \<noteq> [] \<and> \<not> unlocks pgp sk pp \<longrightarrow>
      encryptMessage pgp plain pub (Some sk) (Some pp) = Inl (Error ''Kunne ikke kryptere beskeden'')) \<and>
   (\<not> truthy passphrase \<longrightarrow>
      encryptMessage pgp plain pub senderPrivateKey passphrase = encryptMessage pgp plain pub None None)"
  using encryptMessage_unlock_fails encryptMessage_no_passphrase by blast

theorem signing_needs_key_and_passphrase_witness:
  "encryptMessage sample_openpgp (js ''hello'') [0x50, 0x42]
     (Some (0x53 # 0x41 # js ''correct-horse'')) (Some (js ''wrong''))
     = Inl (Error ''Kunne ikke kryptere beskeden'') \<and>
   encryptMessage sample_openpgp (js ''hello'') [0x50, 0x42]
     (Some (0x53 # 0x41 # js ''correct-horse'')) None
     = encryptMessage sample_openpgp (js ''hello'') [0x50, 0x42] None None"
proof -
  have "js ''wrong'' \<noteq> []" "\<not> unlocks sample_openpgp (0x53 # 0x41 # js ''correct-horse'') (js ''wrong'')"
    by (simp_all add: unlocks_def sample_defs js_def)
  moreover have "\<not> truthy None"
    by (simp add: truthy_def)
  ultimately show ?thesis
    using signing_needs_key_and_passphrase
      [of "0x53 # 0x41 # js ''correct-horse''" "js ''wrong''" sample_openpgp "js ''hello''" "[0x50, 0x42]"
          None "Some (0x53 # 0x41 # js ''correct-horse'')"]
    by simp
qed

text \<open>
  The claim as stated, an error for an absent passphrase, fails when the sender's key
  \<open>0x41\<close> is given with no passphrase: \<open>encryptMessage\<close> returns the message for the
  recipient \<open>0x42\<close> with no signer, where the passphrase would have given the signer
  \<open>0x41\<close>.
\<close>

theorem unsigned_without_passphrase:
  "encryptMessage sample_openpgp (js ''hello'') [0x50, 0x42]
     (Some (0x53 # 0x41 # js ''correct-horse'')) None
     = Inr (0x4D # 0x42 # 0 # js ''hello'') \<and>
   encryptMessage sample_openpgp (js ''hello'') [0x50, 0x42]
     (Some (0x53 # 0x41 # js ''correct-horse'')) (Some (js ''correct-horse''))
     = Inr (0x4D # 0x42 # 0x41 # js ''hello'')"
  by (simp add: encryptMessage_def encryptMessage_try_def await_def sample_defs js_def)

subsection \<open>Verification in \<open>decryptMessage\<close>\<close>

lemma first_signature_rejects:
  assumes "rejects_without_keys pgp" "openpgp_decrypt pgp msg key None = Inr r"
  shows "\<not> first_signature_verified (signatures r)"
proof (cases "signatures r")
  case Nil
  then show ?thesis by (simp add: first_signature_verified_def)
next
  case (Cons s rest)
  then have "s \<in> set (signatures r)" by simp
  then obtain e where "signature_verified s = Rejects e"
    using assms unfolding rejects_without_keys_def by blast
  then show ?thesis using Cons by (simp add: first_signature_verified_def)
qed

lemma no_keys_not_verified:
  assumes "rejects_without_keys pgp" "decryptMessage_try pgp c priv pp spk = Inr r" "\<not> truthy spk"
  shows "\<not> first_signature_verified (signatures r)"
proof -
  have "spk = None \<or> spk = Some []"
    using assms(3) by (cases spk) (simp_all add: truthy_def)
  then obtain locked key msg where
    "readPrivateKey pgp priv = Inr locked" "decryptKey pgp locked pp = Inr key"
    "readMessage pgp c = Inr msg" "openpgp_decrypt pgp msg key None = Inr r"
    using assms(2) by (auto simp add: decryptMessage_try_def await_eq_Inr)
  then show ?thesis
    using first_signature_rejects [OF assms(1)] by simp
qed

text \<open>
  Claim C4. When the calls up to \<open>openpgp.decrypt\<close> succeed with the result \<open>r\<close>,
  \<open>decryptMessage\<close> returns the decrypted text as \<open>message\<close>, and \<open>verified\<close> is false when
  \<open>r\<close> has no signature, when no sender's key was given (the library then rejects every
  signature), and when the promise of the first signature rejects.
\<close>

theorem verified_is_opportunistic:
  assumes "decryptMessage_try pgp c priv pp spk = Inr r"
  shows "\<exists>res.
           decryptMessage pgp c priv pp spk = Inr res \<and>
           message res = data r \<and>
           (signatures r = [] \<longrightarrow> \<not> verified res) \<and>
           (rejects_without_keys pgp \<and> \<not> truthy spk \<longrightarrow> \<not> verified res) \<and>
           ((\<exists>s rest e. signatures r = s # rest \<and> signature_verified s = Rejects e)
              \<longrightarrow> \<not> verified res)"
proof -
  have "decryptMessage pgp c priv pp spk =
      Inr \<lparr> verified = first_signature_verified (signatures r), message = data r \<rparr>"
    using assms by (simp add: decryptMessage_def)
  moreover have "signatures r = [] \<longrightarrow> \<not> first_signature_verified (signatures r)"
    by (simp add: first_signature_verified_def)
  moreover have "rejects_without_keys pgp \<and> \<not> truthy spk \<longrightarrow> \<not> first_signature_verified (signatures r)"
    using no_keys_not_verified [OF _ assms] by simp
  moreover have "(\<exists>s rest e. signatures r = s # rest \<and> signature_verified s = Rejects e)
      \<longrightarrow> \<not> first_signature_verified (signatures r)"
    by (auto simp add: first_signature_verified_def)
  ultimately show ?thesis by simp
qed

lemma sample_rejects_without_keys: "rejects_without_keys sample_openpgp"
  unfolding rejects_without_keys_def
  by (auto simp add: sample_defs split: sample_message.splits if_splits)

text \<open>
  A message signed by the key \<open>0x41\<close> for the key \<open>0x42\<close>, decrypted with no sender's key.
\<close>

theorem verified_is_opportunistic_witness:
  "\<exists>res.
     decryptMessage sample_openpgp (0x4D # 0x42 # 0x41 # js ''hello'')
       (0x53 # 0x42 # js ''battery-staple'') (js ''battery-staple'') None = Inr res \<and>
     message res = js ''hello'' \<and> \<not> verified res"
proof -
  have t: "decryptMessage_try sample_openpgp (0x4D # 0x42 # 0x41 # js ''hello'')
       (0x53 # 0x42 # js ''battery-staple'') (js ''battery-staple'') None =
     Inr (Decrypt_result (js ''hello'') None [Signature (Rejects ''Could not find signing key'')])"
    by (simp add: decryptMessage_try_def await_def sample_defs)
  have "\<not> truthy None" by (simp add: truthy_def)
  then show ?thesis
    using verified_is_opportunistic [OF t] sample_rejects_without_keys by auto
qed

subsection \<open>The errors of \<open>decryptMessage\<close>\<close>

text \<open>
  Claim C5, as amended. Whatever call of the library fails, and with whatever error,
  \<open>decryptMessage\<close> fails with the one error \<open>Error('Kunne ikke dekryptere beskeden')\<close>:
  a wrong passphrase and a corrupted message are not told apart.
\<close>

theorem decryptMessage_one_error:
  "(decryptMessage_try pgp c priv pp spk = Inl library_error \<longrightarrow>
      decryptMessage pgp c priv pp spk = Inl (Error ''Kunne ikke dekryptere beskeden'')) \<and>
   (decryptMessage pgp c priv pp spk = Inl e \<longrightarrow> e = Error ''Kunne ikke dekryptere beskeden'')"
  by (cases "decryptMessage_try pgp c priv pp spk") (simp_all add: decryptMessage_def)

theorem decryptMessage_one_error_witness:
  "decryptMessage sample_openpgp (0x4D # 0x41 # 0 # js ''hello'')
     (0x53 # 0x41 # js ''correct-horse'') (js ''wrong'') None
     = Inl (Error ''Kunne ikke dekryptere beskeden'')"
proof -
  have "decryptMessage_try sample_openpgp (0x4D # 0x41 # 0 # js ''hello'')
     (0x53 # 0x41 # js ''correct-horse'') (js ''wrong'') None = Inl ''Incorrect key passphrase''"
    by (simp add: decryptMessage_try_def await_def sample_defs js_def)
  then show ?thesis
    using decryptMessage_one_error by blast
qed

text \<open>
  The claim as stated, two distinguishable errors, fails at a message for the key
  \<open>0x41\<close> decrypted with a wrong passphrase and at a string that is no message decrypted
  with the right one: the library's errors differ, the errors of \<open>decryptMessage\<close> are
  equal.
\<close>

theorem wrong_passphrase_and_corrupted_message:
  "decryptMessage_try sample_openpgp (0x4D # 0x41 # 0 # js ''hello'')
     (0x53 # 0x41 # js ''correct-horse'') (js ''wrong'') None = Inl ''Incorrect key passphrase'' \<and>
   decryptMessage_try sample_openpgp (js ''garbage'')
     (0x53 # 0x41 # js ''correct-horse'') (js ''correct-horse'') None = Inl ''Misformed armored text'' \<and>
   decryptMessage sample_openpgp (0x4D # 0x41 # 0 # js ''hello'')
     (0x53 # 0x41 # js ''correct-horse'') (js ''wrong'') None =
   decryptMessage sample_openpgp (js ''garbage'')
     (0x53 # 0x41 # js ''correct-horse'') (js ''correct-horse'') None"
  by (simp add: decryptMessage_def decryptMessage_try_def await_def sample_defs js_def)

subsection \<open>The file name \<open>decryptFile\<close> returns\<close>

text \<open>
  Claim C10. When the calls up to \<open>openpgp.decrypt\<close> succeed and the result carries no
  file name, or an empty one, \<open>decryptFile\<close> succeeds and returns the file name
  \<open>decrypted_file\<close> with the decrypted data.
\<close>

theorem decryptFile_fallback_filename:
  assumes "decryptFile_try pgp encryptedData priv pp spk = Inr r" "\<not> truthy (embedded_filename r)"
  shows "\<exists>res.
           decryptFile pgp encryptedData priv pp spk = Inr res \<and>
           filename res = js ''decrypted_file'' \<and>
           decryptedData res = data r"
proof -
  have "embedded_filename r = None \<or> embedded_filename r = Some []"
    using assms(2) by (cases "embedded_filename r") (simp_all add: truthy_def)
  then show ?thesis
    using assms(1) by (auto simp add: decryptFile_def)
qed

theorem decryptFile_fallback_filename_witness:
  "\<exists>res.
     decryptFile sample_openpgp [0x42, 0, 0, 1, 2, 3]
       (0x53 # 0x42 # js ''battery-staple'') (js ''battery-staple'') None = Inr res \<and>
     filename res = js ''decrypted_file'' \<and>
     decryptedData res = [1, 2, 3]"
proof -
  have t: "decryptFile_try sample_openpgp [0x42, 0, 0, 1, 2, 3]
       (0x53 # 0x42 # js ''battery-staple'') (js ''battery-staple'') None =
     Inr (Decrypt_result [1, 2, 3] (Some []) [])"
    by (simp add: decryptFile_try_def await_def sample_defs)
  have "\<not> truthy (embedded_filename (Decrypt_result [1, 2, 3 :: byte] (Some []) []))"
    by (simp add: truthy_def)
  then show ?thesis
    using decryptFile_fallback_filename [OF t] by simp
qed

end
